theory Spec2Isabelle
  imports Complex_Main
begin

section \<open>Instants and the local calendar\<close>

text \<open>
  A JavaScript \<open>Date\<close> holds a whole number of milliseconds. The service only reads and
  writes local-time fields (\<open>getHours\<close>, \<open>setHours\<close>, \<open>getDate\<close>, \<open>setDate\<close>, the
  \<open>Date(year, month, day)\<close> constructor), so an instant is modelled as an \<open>int\<close> counting
  milliseconds on the local time line, for a time zone whose offset does not change
  (no daylight-saving jump inside the days looked at). On that line a calendar day is a
  block of \<open>msPerDay\<close> milliseconds.
\<close>

type_synonym instant = int

definition msPerMinute :: int where
  "msPerMinute = 60 * 1000"

definition msPerHour :: int where
  "msPerHour = 60 * 60 * 1000"

definition msPerDay :: int where
  "msPerDay = 24 * 60 * 60 * 1000"

definition startOfDay :: "instant \<Rightarrow> instant" where
  \<comment> \<open>\<open>new Date(t.getFullYear(), t.getMonth(), t.getDate())\<close>: local midnight of the day of \<open>t\<close>\<close>
  "startOfDay t = (t div msPerDay) * msPerDay"

definition getHours :: "instant \<Rightarrow> int" where
  \<comment> \<open>\<open>t.getHours()\<close>: the local hour of day, 0 to 23\<close>
  "getHours t = (t mod msPerDay) div msPerHour"

definition setHours :: "instant \<Rightarrow> int \<Rightarrow> instant" where
  \<comment> \<open>\<open>t.setHours(h, 0, 0, 0)\<close>: same day, \<open>h\<close> hours after local midnight
      (an \<open>h\<close> outside 0..23 carries into the neighbouring days, as in JavaScript)\<close>
  "setHours t h = startOfDay t + h * msPerHour"

definition addOneDay :: "instant \<Rightarrow> instant" where
  \<comment> \<open>\<open>t.setDate(t.getDate() + 1)\<close>: same time of day, next calendar day\<close>
  "addOneDay t = t + msPerDay"

section \<open>Settings\<close>

record settings =
  notificationsEnabled :: bool
  dailyFrequency :: int
  startHour :: int
  endHour :: int
  minGapHours :: int

section \<open>Quiet-hours adjustment\<close>

text \<open>
  \<^verbatim>\<open>
  adjustForQuietHours(time, settings) {
    const hour = time.getHours();
    if (hour < settings.startHour) { time.setHours(settings.startHour, 0, 0, 0); }
    if (hour >= settings.endHour) {
      time.setDate(time.getDate() + 1);
      time.setHours(settings.startHour, 0, 0, 0);
    }
    return time;
  }
  \<close>
  The hour is read once, before either branch; both tests use that first reading, and the
  second branch works on the date as the first branch left it.
\<close>

definition adjustForQuietHours :: "instant \<Rightarrow> settings \<Rightarrow> instant" where
  "adjustForQuietHours time s =
     (let hour = getHours time;
          time1 = (if hour < startHour s then setHours time (startHour s) else time);
          time2 = (if hour \<ge> endHour s then setHours (addOneDay time1) (startHour s) else time1)
      in time2)"

section \<open>Messages and effective weights\<close>

text \<open>
  A stored message. \<open>msgId\<close> and \<open>msgText\<close> are the source's fields \<open>id\<close> and \<open>text\<close>.
\<close>

record message =
  msgId :: string
  msgText :: string
  weight :: int
  isNagMe :: bool
  nagIntervalMinutes :: int
  createdAt :: instant
  lastShown :: "instant option"

text \<open>
  The selector works on copies of the messages that carry one more field,
  \<open>{ ...msg, effectiveWeight: weight }\<close>.
\<close>

record weighted_message = message +
  effectiveWeight :: real

definition isMessageNew :: "instant \<Rightarrow> message \<Rightarrow> bool" where
  \<comment> \<open>\<open>Date.now() - message.createdAt < twoWeeks\<close>; the clock reading is the first argument\<close>
  "isMessageNew now msg =
     (let twoWeeks = 14 * 24 * 60 * 60 * 1000 in now - createdAt msg < twoWeeks)"

definition boostedWeight :: "instant \<Rightarrow> message \<Rightarrow> real" where
  \<comment> \<open>the body of the \<open>map\<close> callback: \<open>msg.weight || 3\<close> replaces a weight of 0 by 3\<close>
  "boostedWeight now msg =
     (let weight0 = (if weight msg = 0 then 3 else weight msg)
      in if weight0 = 3 \<and> isMessageNew now msg
         then real_of_int weight0 * (3 / 2)
         else real_of_int weight0)"

definition withEffectiveWeight :: "instant \<Rightarrow> message \<Rightarrow> weighted_message" where
  "withEffectiveWeight now msg =
     message.extend msg (weighted_message.fields (boostedWeight now msg))"

section \<open>Weighted selection\<close>

text \<open>
  \<^verbatim>\<open>
  let random = Math.random() * totalWeight;
  for (const msg of weightedMessages) {
    random -= msg.effectiveWeight;
    if (random <= 0) { return msg; }
  }
  return weightedMessages[0]; // Fallback
  \<close>
  \<open>Math.random()\<close> is a parameter \<open>r\<close>; numbers are taken as exact reals. The loop is
  \<open>walk\<close>, which answers \<open>None\<close> when it runs off the end of the list.
\<close>

fun walk :: "weighted_message list \<Rightarrow> real \<Rightarrow> weighted_message option" where
  "walk [] random = None"
| "walk (msg # rest) random =
     (let random1 = random - effectiveWeight msg
      in if random1 \<le> 0 then Some msg else walk rest random1)"

definition totalWeightOf :: "weighted_message list \<Rightarrow> real" where
  \<comment> \<open>\<open>weightedMessages.reduce((sum, msg) => sum + msg.effectiveWeight, 0)\<close>\<close>
  "totalWeightOf weightedMessages =
     foldl (\<lambda>sum msg. sum + effectiveWeight msg) 0 weightedMessages"

definition selectNextMessage :: "message list \<Rightarrow> instant \<Rightarrow> real \<Rightarrow> weighted_message option" where
  "selectNextMessage messages now r =
     (let regularMessages = filter (\<lambda>m. \<not> isNagMe m) messages
      in if length regularMessages = 0 then None
         else
           (let weightedMessages = map (withEffectiveWeight now) regularMessages;
                totalWeight = totalWeightOf weightedMessages;
                random = r * totalWeight
            in case walk weightedMessages random of
                 Some msg \<Rightarrow> Some msg
               | None \<Rightarrow> Some (weightedMessages ! 0)))"

section \<open>Sampling fire times inside the daily window\<close>

definition jsTrunc :: "real \<Rightarrow> int" where
  \<comment> \<open>\<open>new Date(x)\<close> keeps the integer part of \<open>x\<close>, rounding toward zero\<close>
  "jsTrunc x = (if x \<ge> 0 then \<lfloor>x\<rfloor> else \<lceil>x\<rceil>)"

text \<open>
  The random source is a sequence \<open>rnd\<close> of draws and a position \<open>k\<close> in it; each call of
  \<open>Math.random()\<close> reads \<open>rnd k\<close> and moves to \<open>Suc k\<close>.

  \<open>attemptLoop\<close> is the inner \<open>while (attempts < 50 && !validTime)\<close> loop: it answers the
  accepted candidate, or \<open>None\<close> after the 50th rejection.
\<close>

function attemptLoop ::
  "(nat \<Rightarrow> real) \<Rightarrow> instant \<Rightarrow> int \<Rightarrow> int \<Rightarrow> instant \<Rightarrow> instant list \<Rightarrow> nat \<Rightarrow> nat
     \<Rightarrow> instant option \<times> nat" where
  "attemptLoop rnd startTime windowMs minGapMs now timesList attempts k =
     (if attempts < 50
      then
        (let randomOffset = rnd k * real_of_int windowMs;
             candidateTime = jsTrunc (real_of_int startTime + randomOffset);
             tooClose = list_ex (\<lambda>t. \<bar>candidateTime - t\<bar> < minGapMs) timesList
         in if \<not> tooClose \<and> candidateTime > now
            then (Some candidateTime, Suc k)
            else attemptLoop rnd startTime windowMs minGapMs now timesList (Suc attempts) (Suc k))
      else (None, k))"
  by pat_completeness auto
termination
  by (relation "measure (\<lambda>(rnd, startTime, windowMs, minGapMs, now, timesList, attempts, k). 50 - attempts)")
     auto

text \<open>\<open>slotLoop\<close> is the outer \<open>for (let i = 0; i < count; i++)\<close> loop.\<close>

function slotLoop ::
  "(nat \<Rightarrow> real) \<Rightarrow> instant \<Rightarrow> int \<Rightarrow> int \<Rightarrow> instant \<Rightarrow> int \<Rightarrow> int \<Rightarrow> instant list \<Rightarrow> nat
     \<Rightarrow> instant list \<times> nat" where
  "slotLoop rnd startTime windowMs minGapMs now count i timesList k =
     (if i < count
      then
        (case attemptLoop rnd startTime windowMs minGapMs now timesList 0 k of
           (Some validTime, k1) \<Rightarrow>
             slotLoop rnd startTime windowMs minGapMs now count (i + 1) (timesList @ [validTime]) k1
         | (None, k1) \<Rightarrow>
             slotLoop rnd startTime windowMs minGapMs now count (i + 1) timesList k1)
      else (timesList, k))"
  by pat_completeness auto
termination
  by (relation "measure (\<lambda>(rnd, startTime, windowMs, minGapMs, now, count, i, timesList, k). nat (count - i))")
     auto

declare attemptLoop.simps [simp del] slotLoop.simps [simp del]

text \<open>
  The candidate built from the draw at position \<open>k\<close>, and the test that turns it down, as
  they stand in the loop body.
\<close>

definition candidateAt :: "(nat \<Rightarrow> real) \<Rightarrow> instant \<Rightarrow> int \<Rightarrow> nat \<Rightarrow> instant" where
  "candidateAt rnd startTime windowMs k =
     jsTrunc (real_of_int startTime + rnd k * real_of_int windowMs)"

definition turnedDown :: "int \<Rightarrow> instant \<Rightarrow> instant list \<Rightarrow> instant \<Rightarrow> bool" where
  "turnedDown minGapMs now timesList candidateTime =
     (list_ex (\<lambda>t. \<bar>candidateTime - t\<bar> < minGapMs) timesList \<or> \<not> candidateTime > now)"

text \<open>
  The two properties the accepted instants keep while the slot loop runs: all of them lie
  in the window and after \<open>now\<close>; any two different ones are at least \<open>g\<close> apart, and with a
  positive \<open>g\<close> no instant occurs twice.
\<close>

definition withinWindow :: "instant \<Rightarrow> instant \<Rightarrow> instant \<Rightarrow> instant list \<Rightarrow> bool" where
  "withinWindow lo hi now ts = (\<forall>t\<in>set ts. lo \<le> t \<and> t \<le> hi \<and> now < t)"

definition spacedBy :: "int \<Rightarrow> instant list \<Rightarrow> bool" where
  "spacedBy g ts =
     ((\<forall>a\<in>set ts. \<forall>b\<in>set ts. a \<noteq> b \<longrightarrow> g \<le> \<bar>a - b\<bar>) \<and> (0 < g \<longrightarrow> distinct ts))"

definition windowOf :: "settings \<Rightarrow> instant \<Rightarrow> instant \<times> instant" where
  \<comment> \<open>lines 66 to 79: today's window, moved to tomorrow when \<open>now > endTime\<close>\<close>
  "windowOf s now =
     (let today = startOfDay now;
          startTime = setHours today (startHour s);
          endTime = setHours today (endHour s)
      in if now > endTime then (addOneDay startTime, addOneDay endTime)
         else (startTime, endTime))"

definition calculateNotificationTimes ::
  "settings \<Rightarrow> instant \<Rightarrow> (nat \<Rightarrow> real) \<Rightarrow> nat \<Rightarrow> instant list \<times> nat" where
  "calculateNotificationTimes s now rnd k =
     (let (startTime, endTime) = windowOf s now;
          windowMs = endTime - startTime;
          count = dailyFrequency s;
          minGapMs = minGapHours s * 60 * 60 * 1000;
          (timesList, k1) = slotLoop rnd startTime windowMs minGapMs now count 0 [] k
      in (sort timesList, k1))"

section \<open>Planning a recurring nag\<close>

text \<open>
  \<^verbatim>\<open>
  let currentTime = nextTime;
  while (currentTime < endTime) {
    scheduledTimes.push(new Date(currentTime));
    currentTime = new Date(currentTime.getTime() + intervalMs);
    currentTime = this.adjustForQuietHours(currentTime, settings);
  }
  \<close>
  Nothing in the loop itself bounds the number of rounds, so it is a partial function:
  \<open>None\<close> stands for a loop that never ends.
\<close>

partial_function (option) nagLoop ::
  "instant \<Rightarrow> instant \<Rightarrow> int \<Rightarrow> settings \<Rightarrow> instant list \<Rightarrow> instant list option" where
  "nagLoop currentTime endTime intervalMs s scheduledTimes =
     (if currentTime < endTime
      then nagLoop (adjustForQuietHours (currentTime + intervalMs) s) endTime intervalMs s
             (scheduledTimes @ [currentTime])
      else Some scheduledTimes)"

declare nagLoop.simps [code]

text \<open>
  \<open>isNagPlan currentTime endTime intervalMs s ts\<close> says that \<open>ts\<close> is, entry by entry, what
  the loop pushes when it starts at \<open>currentTime\<close> and then leaves: each entry is the current
  instant of a round that passed the test \<open>currentTime < endTime\<close>, the next round starts at
  the adjusted instant one interval later, and after the last entry the test fails.
\<close>

fun isNagPlan :: "instant \<Rightarrow> instant \<Rightarrow> int \<Rightarrow> settings \<Rightarrow> instant list \<Rightarrow> bool" where
  "isNagPlan currentTime endTime intervalMs s [] = (\<not> currentTime < endTime)"
| "isNagPlan currentTime endTime intervalMs s (t # ts) =
     (currentTime < endTime \<and> t = currentTime
      \<and> isNagPlan (adjustForQuietHours (currentTime + intervalMs) s) endTime intervalMs s ts)"

definition planNagTimes :: "message \<Rightarrow> settings \<Rightarrow> instant \<Rightarrow> instant list option" where
  \<comment> \<open>lines 178 to 194 of \<open>scheduleRepeatingNag\<close>\<close>
  "planNagTimes msg s now =
     (let intervalMs = nagIntervalMinutes msg * 60 * 1000;
          nextTime = adjustForQuietHours (now + intervalMs) s;
          endTime = now + 24 * 60 * 60 * 1000
      in nagLoop nextTime endTime intervalMs s [])"

section \<open>The message store, the notification sink and the random source\<close>

text \<open>
  A pending trigger notification of the sink. Only the fields the service reads back or
  that tell entries apart are kept; \<open>nid\<close> is \<open>notification.id\<close>, which the service reads
  with \<open>id?.\<close>, so it may be missing.
\<close>

record notification =
  nid :: "string option"
  body :: string
  channelId :: string
  timestamp :: instant

text \<open>The calls a pass makes on its collaborators, in the order it makes them.\<close>

datatype event =
    GetSettings
  | GetMessages
  | UpdateMessage string
  | SaveState
  | GetTriggerNotifications
  | CancelTriggerNotifications "string list"
  | CreateTriggerNotification string

text \<open>
  Everything a pass can read or change: the store (\<open>storedMessages\<close>, \<open>storedSettings\<close>,
  \<open>lastNotificationTime\<close>), the sink (\<open>pending\<close>, and \<open>rejects\<close>, the ids whose registration
  the sink refuses), the random source (\<open>draws\<close> and the number \<open>drawn\<close> so far) and the
  log of collaborator \<open>calls\<close>.

  The sink is the notifee library, which is not part of the repository. It is modelled
  after the interface the specification gives it: \<open>enumeratePending\<close> and \<open>cancelByIds\<close>
  always succeed, \<open>register\<close> answers ok or error; registering under the id of a pending
  entry replaces that entry. The store's reads and writes catch their own errors in the
  source and are taken to succeed.
\<close>

record world =
  storedMessages :: "message list"
  storedSettings :: settings
  lastNotificationTime :: "instant option"
  pending :: "notification list"
  rejects :: "string \<Rightarrow> bool"
  draws :: "nat \<Rightarrow> real"
  drawn :: nat
  calls :: "event list"

text \<open>
  The promise of an \<open>async\<close> function: resolved, or rejected with the error of the sink
  call that failed (named by the id it was registering). The source has no \<open>try\<close> around
  its sink calls, so a rejected call rejects the function that awaits it.
\<close>

datatype outcome = Resolved | Rejected string

definition startsWith :: "string \<Rightarrow> string \<Rightarrow> bool" where
  \<comment> \<open>\<open>str.startsWith(p)\<close>\<close>
  "startsWith str p = (take (length p) str = p)"

definition idStartsWith :: "string \<Rightarrow> notification \<Rightarrow> bool" where
  \<comment> \<open>\<open>n.notification.id?.startsWith(p)\<close>, taken as a truth value: a missing id counts as false\<close>
  "idStartsWith p n = (case nid n of None \<Rightarrow> False | Some i \<Rightarrow> startsWith i p)"

definition cancelTriggerNotifications :: "string list \<Rightarrow> world \<Rightarrow> world" where
  \<comment> \<open>\<open>notifee.cancelTriggerNotifications(ids)\<close>: drops the pending entries whose id is listed\<close>
  "cancelTriggerNotifications ids w =
     w\<lparr>pending := filter (\<lambda>n. case nid n of None \<Rightarrow> True | Some i \<Rightarrow> i \<notin> set ids) (pending w),
       calls := calls w @ [CancelTriggerNotifications ids]\<rparr>"

definition cancelAllWisdomNotifications :: "world \<Rightarrow> world" where
  \<comment> \<open>every entry that passes the filter has an id, which \<open>the\<close> reads\<close>
  "cancelAllWisdomNotifications w =
     (let scheduled = pending w;
          w1 = w\<lparr>calls := calls w @ [GetTriggerNotifications]\<rparr>;
          wisdomIds = map (\<lambda>n. the (nid n)) (filter (idStartsWith ''wisdom-'') scheduled)
      in cancelTriggerNotifications wisdomIds w1)"

definition cancelAllNagNotifications :: "world \<Rightarrow> world" where
  "cancelAllNagNotifications w =
     (let scheduled = pending w;
          w1 = w\<lparr>calls := calls w @ [GetTriggerNotifications]\<rparr>;
          nagIds = map (\<lambda>n. the (nid n)) (filter (idStartsWith ''nag-'') scheduled)
      in cancelTriggerNotifications nagIds w1)"

definition createTriggerNotification ::
  "string \<Rightarrow> string \<Rightarrow> string \<Rightarrow> instant \<Rightarrow> world \<Rightarrow> outcome \<times> world" where
  \<comment> \<open>\<open>notifee.createTriggerNotification({id, body, android: {channelId}}, {timestamp})\<close>\<close>
  "createTriggerNotification i b c t w =
     (let w1 = w\<lparr>calls := calls w @ [CreateTriggerNotification i]\<rparr>
      in if rejects w i then (Rejected i, w1)
         else (Resolved,
               w1\<lparr>pending := filter (\<lambda>n. nid n \<noteq> Some i) (pending w1)
                     @ [\<lparr>nid = Some i, body = b, channelId = c, timestamp = t\<rparr>]\<rparr>))"

text \<open>The decimal rendering of \<open>time.getTime()\<close> inside a template literal.\<close>

definition digitChar :: "nat \<Rightarrow> char" where
  "digitChar d = ''0123456789'' ! d"

function showNat :: "nat \<Rightarrow> string" where
  "showNat n = (if n < 10 then [digitChar n] else showNat (n div 10) @ [digitChar (n mod 10)])"
  by pat_completeness auto
termination
  by (relation "measure (\<lambda>n. n)") auto

declare showNat.simps [simp del]

definition showInt :: "int \<Rightarrow> string" where
  "showInt i = (if i < 0 then CHR ''-'' # showNat (nat (- i)) else showNat (nat i))"

section \<open>The wisdom pass\<close>

definition selectNextMessageIO :: "instant \<Rightarrow> world \<Rightarrow> weighted_message option \<times> world" where
  \<comment> \<open>\<open>selectNextMessage()\<close> with its read of the store and its draw, which happens only
      when there is a candidate\<close>
  "selectNextMessageIO now w =
     (let w1 = w\<lparr>calls := calls w @ [GetMessages]\<rparr>;
          messages = storedMessages w1
      in if length (filter (\<lambda>m. \<not> isNagMe m) messages) = 0 then (None, w1)
         else (selectNextMessage messages now (draws w1 (drawn w1)),
               w1\<lparr>drawn := Suc (drawn w1)\<rparr>))"

fun updateLastShown :: "string \<Rightarrow> instant \<Rightarrow> message list \<Rightarrow> message list" where
  \<comment> \<open>\<open>findIndex(m => m.id === id)\<close> and the merge of \<open>{ lastShown }\<close> into that message\<close>
  "updateLastShown i t [] = []"
| "updateLastShown i t (m # ms) =
     (if msgId m = i then m\<lparr>lastShown := Some t\<rparr> # ms else m # updateLastShown i t ms)"

definition updateMessage :: "string \<Rightarrow> instant \<Rightarrow> world \<Rightarrow> world" where
  \<comment> \<open>\<open>StorageService.updateMessage(id, { lastShown: t })\<close>\<close>
  "updateMessage i t w =
     w\<lparr>storedMessages := updateLastShown i t (storedMessages w),
       calls := calls w @ [UpdateMessage i]\<rparr>"

text \<open>
  \<^verbatim>\<open>
  for (const time of times) {
    const message = await this.selectNextMessage();
    if (!message) continue;
    await notifee.createTriggerNotification({ id: `wisdom-${time.getTime()}`, ... }, trigger);
    await StorageService.updateMessage(message.id, { lastShown: time.getTime() });
  }
  \<close>
\<close>

fun wisdomLoop :: "instant list \<Rightarrow> instant \<Rightarrow> world \<Rightarrow> outcome \<times> world" where
  "wisdomLoop [] now w = (Resolved, w)"
| "wisdomLoop (time # rest) now w =
     (case selectNextMessageIO now w of
        (None, w1) \<Rightarrow> wisdomLoop rest now w1
      | (Some msg, w1) \<Rightarrow>
          (case createTriggerNotification (''wisdom-'' @ showInt time) (msgText msg)
                  ''notetoself-wisdom'' time w1 of
             (Rejected e, w2) \<Rightarrow> (Rejected e, w2)
           | (Resolved, w2) \<Rightarrow> wisdomLoop rest now (updateMessage (msgId msg) time w2)))"

definition scheduleWisdomNotifications :: "instant \<Rightarrow> world \<Rightarrow> outcome \<times> world" where
  "scheduleWisdomNotifications now w =
     (let w1 = w\<lparr>calls := calls w @ [GetSettings]\<rparr>;
          s = storedSettings w1
      in if \<not> notificationsEnabled s then (Resolved, cancelAllWisdomNotifications w1)
         else
           (let w2 = cancelAllWisdomNotifications w1;
                (timesList, k1) = calculateNotificationTimes s now (draws w2) (drawn w2);
                w3 = w2\<lparr>drawn := k1\<rparr>
            in case wisdomLoop timesList now w3 of
                 (Rejected e, w4) \<Rightarrow> (Rejected e, w4)
               | (Resolved, w4) \<Rightarrow>
                   (Resolved, w4\<lparr>lastNotificationTime := Some now,
                                 calls := calls w4 @ [SaveState]\<rparr>)))"

section \<open>The nag pass\<close>

text \<open>
  \<^verbatim>\<open>
  for (const time of scheduledTimes) {
    await notifee.createTriggerNotification(
      { id: `nag-${message.id}-${time.getTime()}`, ... }, trigger);
  }
  \<close>
\<close>

fun nagRegisterLoop :: "message \<Rightarrow> instant list \<Rightarrow> world \<Rightarrow> outcome \<times> world" where
  "nagRegisterLoop msg [] w = (Resolved, w)"
| "nagRegisterLoop msg (time # rest) w =
     (case createTriggerNotification (''nag-'' @ msgId msg @ ''-'' @ showInt time) (msgText msg)
             ''notetoself-nag'' time w of
        (Rejected e, w1) \<Rightarrow> (Rejected e, w1)
      | (Resolved, w1) \<Rightarrow> nagRegisterLoop msg rest w1)"

definition scheduleRepeatingNag ::
  "message \<Rightarrow> settings \<Rightarrow> instant \<Rightarrow> world \<Rightarrow> (outcome \<times> world) option" where
  \<comment> \<open>\<open>None\<close> when the planning loop never ends\<close>
  "scheduleRepeatingNag msg s now w =
     (case planNagTimes msg s now of
        None \<Rightarrow> None
      | Some scheduledTimes \<Rightarrow> Some (nagRegisterLoop msg scheduledTimes w))"

fun nagMessagesLoop ::
  "message list \<Rightarrow> settings \<Rightarrow> instant \<Rightarrow> world \<Rightarrow> (outcome \<times> world) option" where
  \<comment> \<open>\<open>for (const msg of nagMessages) { await this.scheduleRepeatingNag(msg, settings); }\<close>\<close>
  "nagMessagesLoop [] s now w = Some (Resolved, w)"
| "nagMessagesLoop (msg # rest) s now w =
     (case scheduleRepeatingNag msg s now w of
        None \<Rightarrow> None
      | Some (Rejected e, w1) \<Rightarrow> Some (Rejected e, w1)
      | Some (Resolved, w1) \<Rightarrow> nagMessagesLoop rest s now w1)"

definition scheduleNagNotifications :: "instant \<Rightarrow> world \<Rightarrow> (outcome \<times> world) option" where
  "scheduleNagNotifications now w =
     (let w1 = w\<lparr>calls := calls w @ [GetMessages]\<rparr>;
          nagMessages = filter (\<lambda>m. isNagMe m) (storedMessages w1);
          w2 = w1\<lparr>calls := calls w1 @ [GetSettings]\<rparr>;
          s = storedSettings w2;
          w3 = cancelAllNagNotifications w2
      in nagMessagesLoop nagMessages s now w3)"

text \<open>The ids a log shows the pass trying to register, in order.\<close>

fun createdIds :: "event list \<Rightarrow> string list" where
  "createdIds [] = []"
| "createdIds (CreateTriggerNotification i # evs) = i # createdIds evs"
| "createdIds (ev # evs) = createdIds evs"

section \<open>Relations between the world before and after a pass\<close>

text \<open>
  \<open>keepsOthers p w w'\<close>: going from \<open>w\<close> to \<open>w'\<close>, the pending entries whose id does not
  start with \<open>p\<close> are the same, in the same order, and every id the log shows being
  registered is an old one or starts with \<open>p\<close>.
\<close>

definition keepsOthers :: "string \<Rightarrow> world \<Rightarrow> world \<Rightarrow> bool" where
  "keepsOthers p w w' =
     (filter (\<lambda>n. \<not> idStartsWith p n) (pending w') = filter (\<lambda>n. \<not> idStartsWith p n) (pending w)
      \<and> (\<forall>i\<in>set (createdIds (calls w')). i \<in> set (createdIds (calls w)) \<or> startsWith i p))"

text \<open>
  \<open>stopsAtFailure w r w'\<close>: the calls added between \<open>w\<close> and \<open>w'\<close> contain no refused
  registration when the outcome is \<open>Resolved\<close>; when it is \<open>Rejected e\<close>, the refused
  registration of \<open>e\<close> is the last call and the only refused one.
\<close>

definition cleanCalls :: "world \<Rightarrow> event list \<Rightarrow> bool" where
  "cleanCalls w evs = (\<forall>i\<in>set (createdIds evs). \<not> rejects w i)"

definition stopsAtFailure :: "world \<Rightarrow> outcome \<Rightarrow> world \<Rightarrow> bool" where
  "stopsAtFailure w r w' =
     (rejects w' = rejects w
      \<and> (\<exists>new. calls w' = calls w @ new
            \<and> (case r of
                  Resolved \<Rightarrow> cleanCalls w new
                | Rejected e \<Rightarrow>
                    rejects w e
                    \<and> (\<exists>pre. new = pre @ [CreateTriggerNotification e] \<and> cleanCalls w pre))))"

section \<open>The selection rule in the words of the specification\<close>

text \<open>
  The candidates are the non-nag messages, each with its effective weight, in list order.
  \<open>remainderAfter cands x i\<close> is what is left of the drawn value \<open>x\<close> once the effective
  weights of the candidates at positions \<open>0\<close> to \<open>i\<close> have been subtracted.
\<close>

definition selectorCandidates :: "message list \<Rightarrow> instant \<Rightarrow> weighted_message list" where
  "selectorCandidates messages now =
     map (withEffectiveWeight now) (filter (\<lambda>m. \<not> isNagMe m) messages)"

definition remainderAfter :: "weighted_message list \<Rightarrow> real \<Rightarrow> nat \<Rightarrow> real" where
  "remainderAfter cands x i = x - sum_list (map effectiveWeight (take (Suc i) cands))"

section \<open>Sample inputs\<close>

definition defaultSettings :: settings where
  \<comment> \<open>\<open>DEFAULT_SETTINGS\<close> of the storage service\<close>
  "defaultSettings = \<lparr>notificationsEnabled = True, dailyFrequency = 3, startHour = 8,
      endHour = 22, minGapHours = 2\<rparr>"

definition sampleMessage :: "string \<Rightarrow> int \<Rightarrow> bool \<Rightarrow> instant \<Rightarrow> message" where
  "sampleMessage i w nag created =
     \<lparr>msgId = i, msgText = ''note '' @ i, weight = w, isNagMe = nag,
      nagIntervalMinutes = 90, createdAt = created, lastShown = None\<rparr>"

definition sampleNag :: message where
  "sampleNag = sampleMessage ''n'' 3 True 0"

definition sampleWorld :: world where
  "sampleWorld =
     \<lparr>storedMessages = [sampleMessage ''a'' 2 False 0, sampleNag, sampleMessage ''b'' 4 False 0],
      storedSettings = defaultSettings,
      lastNotificationTime = None,
      pending = [\<lparr>nid = Some ''wisdom-1'', body = ''x'', channelId = ''notetoself-wisdom'', timestamp = 1\<rparr>,
                 \<lparr>nid = Some ''nag-n-2'', body = ''y'', channelId = ''notetoself-nag'', timestamp = 2\<rparr>,
                 \<lparr>nid = None, body = ''z'', channelId = ''other'', timestamp = 3\<rparr>],
      rejects = (\<lambda>i. False),
      draws = (\<lambda>k. 1 / (2 + real k)),
      drawn = 0,
      calls = []\<rparr>"

definition refusingWorld :: world where
  \<comment> \<open>the sample world with a sink that refuses the first nag registration\<close>
  "refusingWorld = sampleWorld\<lparr>rejects := (\<lambda>i. i = ''nag-n-37800000'')\<rparr>"

section \<open>Facts about the calendar\<close>

lemma getHours_range: "0 \<le> getHours t \<and> getHours t < 24"
  unfolding getHours_def msPerDay_def msPerHour_def by simp linarith

lemma startOfDay_le: "startOfDay t \<le> t"
  unfolding startOfDay_def msPerDay_def by simp

lemma startOfDay_plus_mod: "startOfDay t + t mod msPerDay = t"
  unfolding startOfDay_def by simp

lemma startOfDay_addOneDay: "startOfDay (addOneDay t) = startOfDay t + msPerDay"
  unfolding startOfDay_def addOneDay_def msPerDay_def by (simp add: algebra_simps)

lemma getHours_less_iff: "getHours t < h \<longleftrightarrow> t < startOfDay t + h * msPerHour"
proof -
  have "getHours t < h \<longleftrightarrow> t mod msPerDay < h * msPerHour"
    unfolding getHours_def msPerHour_def by simp linarith
  also have "\<dots> \<longleftrightarrow> startOfDay t + t mod msPerDay < startOfDay t + h * msPerHour"
    by simp
  finally show ?thesis by (simp only: startOfDay_plus_mod)
qed

lemma getHours_setHours:
  assumes "0 \<le> h" "h < 24"
  shows "getHours (setHours t h) = h"
proof -
  have "0 \<le> h * msPerHour" "h * msPerHour < msPerDay"
    using assms by (simp_all add: msPerHour_def msPerDay_def)
  then have "(t div msPerDay * msPerDay + h * msPerHour) mod msPerDay = h * msPerHour"
    by (simp add: msPerDay_def)
  then show ?thesis by (simp add: getHours_def setHours_def startOfDay_def msPerHour_def)
qed

section \<open>The quiet-hours adjustment\<close>

lemma adjust_before:
  assumes "startHour s < endHour s" "getHours t < startHour s"
  shows "adjustForQuietHours t s = startOfDay t + startHour s * msPerHour"
  using assms by (simp add: adjustForQuietHours_def setHours_def)

lemma adjust_after:
  assumes "startHour s < endHour s" "endHour s \<le> getHours t"
  shows "adjustForQuietHours t s = startOfDay t + msPerDay + startHour s * msPerHour"
  using assms by (simp add: adjustForQuietHours_def setHours_def startOfDay_addOneDay)

lemma adjust_inside:
  assumes "startHour s \<le> getHours t" "getHours t < endHour s"
  shows "adjustForQuietHours t s = t"
  using assms by (simp add: adjustForQuietHours_def)

lemma adjust_hour_active:
  assumes "startHour s < endHour s" "0 \<le> startHour s" "startHour s < 24"
  shows "startHour s \<le> getHours (adjustForQuietHours t s)
       \<and> getHours (adjustForQuietHours t s) < endHour s"
proof -
  have snapped: "getHours (setHours u (startHour s)) = startHour s" for u
    using assms by (simp add: getHours_setHours)
  show ?thesis
    using assms snapped by (auto simp: adjustForQuietHours_def Let_def)
qed

text \<open>
  Claim C4. With \<open>startHour < endHour\<close>, \<open>adjustForQuietHours\<close> answers \<open>startHour:00\<close> of the
  same day when the hour of day is below \<open>startHour\<close>, \<open>startHour:00\<close> of the next day when the
  hour of day is \<open>endHour\<close> or later, and the instant itself otherwise. For a start hour on
  the clock face (0 to 23, the range of the settings) the result lies in the active hours,
  so adjusting a second time changes nothing.
\<close>

theorem adjustForQuietHours_rule:
  assumes "startHour s < endHour s"
  shows "(getHours t < startHour s \<longrightarrow>
            adjustForQuietHours t s = startOfDay t + startHour s * msPerHour)
       \<and> (getHours t \<ge> endHour s \<longrightarrow>
            adjustForQuietHours t s = startOfDay t + msPerDay + startHour s * msPerHour)
       \<and> (startHour s \<le> getHours t \<and> getHours t < endHour s \<longrightarrow>
            adjustForQuietHours t s = t)
       \<and> (0 \<le> startHour s \<and> startHour s < 24 \<longrightarrow>
            adjustForQuietHours (adjustForQuietHours t s) s = adjustForQuietHours t s)"
proof (intro conjI impI)
  assume "0 \<le> startHour s \<and> startHour s < 24"
  then have "startHour s \<le> getHours (adjustForQuietHours t s)
       \<and> getHours (adjustForQuietHours t s) < endHour s"
    using assms adjust_hour_active by blast
  then show "adjustForQuietHours (adjustForQuietHours t s) s = adjustForQuietHours t s"
    by (simp add: adjust_inside)
qed (use assms in \<open>simp_all add: adjust_before adjust_after adjust_inside\<close>)

theorem adjustForQuietHours_rule_witness:
  "startHour defaultSettings < endHour defaultSettings
   \<and> getHours (3 * msPerHour) < startHour defaultSettings
   \<and> adjustForQuietHours (3 * msPerHour) defaultSettings = 8 * msPerHour
   \<and> getHours (23 * msPerHour) \<ge> endHour defaultSettings
   \<and> adjustForQuietHours (23 * msPerHour) defaultSettings = msPerDay + 8 * msPerHour
   \<and> startHour defaultSettings \<le> getHours (14 * msPerHour)
   \<and> getHours (14 * msPerHour) < endHour defaultSettings
   \<and> adjustForQuietHours (14 * msPerHour) defaultSettings = 14 * msPerHour
   \<and> adjustForQuietHours (adjustForQuietHours (23 * msPerHour) defaultSettings) defaultSettings
       = adjustForQuietHours (23 * msPerHour) defaultSettings"
proof -
  have ds: "startHour defaultSettings = 8" "endHour defaultSettings = 22"
    by (simp_all add: defaultSettings_def)
  have h: "startHour defaultSettings < endHour defaultSettings"
    by (simp add: ds)
  have e: "getHours (3 * msPerHour) = 3" "getHours (23 * msPerHour) = 23"
    "getHours (14 * msPerHour) = 14" "startOfDay (3 * msPerHour) = 0"
    "startOfDay (23 * msPerHour) = 0"
    by (simp_all add: getHours_def startOfDay_def msPerHour_def msPerDay_def)
  note r3 = adjustForQuietHours_rule [OF h, of "3 * msPerHour"]
  note r23 = adjustForQuietHours_rule [OF h, of "23 * msPerHour"]
  note r14 = adjustForQuietHours_rule [OF h, of "14 * msPerHour"]
  have a3: "adjustForQuietHours (3 * msPerHour) defaultSettings = 8 * msPerHour"
    using r3 by (simp add: e ds)
  have a23: "adjustForQuietHours (23 * msPerHour) defaultSettings = msPerDay + 8 * msPerHour"
    using r23 by (simp add: e ds)
  have a14: "adjustForQuietHours (14 * msPerHour) defaultSettings = 14 * msPerHour"
    using r14 by (simp add: e ds)
  from r23 have "0 \<le> startHour defaultSettings \<and> startHour defaultSettings < 24 \<longrightarrow>
      adjustForQuietHours (adjustForQuietHours (23 * msPerHour) defaultSettings) defaultSettings
       = adjustForQuietHours (23 * msPerHour) defaultSettings"
    by blast
  then have i23: "adjustForQuietHours (adjustForQuietHours (23 * msPerHour) defaultSettings) defaultSettings
       = adjustForQuietHours (23 * msPerHour) defaultSettings"
    by (simp add: ds)
  show ?thesis
    using h a3 a23 a14 i23 by (simp add: e ds)
qed

text \<open>
  The bounds on the start hour matter. The settings take their start hour from the clock
  face; with a start hour outside it the adjustment can move an instant backward (start
  hour \<open>-5\<close>: 23:00 goes to 19:00 of the same day), and adjusting twice can differ from
  adjusting once (start hour 25: 01:00 goes to 01:00 of the next day, and from there on to
  01:00 of the day after).
\<close>

lemma startHour_off_the_clock_face:
  "adjustForQuietHours (23 * msPerHour) (defaultSettings\<lparr>startHour := - 5, endHour := 0\<rparr>)
     = 19 * msPerHour"
  "adjustForQuietHours (1 * msPerHour) (defaultSettings\<lparr>startHour := 25, endHour := 26\<rparr>)
     = 25 * msPerHour"
  "adjustForQuietHours (25 * msPerHour) (defaultSettings\<lparr>startHour := 25, endHour := 26\<rparr>)
     = 49 * msPerHour"
  by (simp_all add: adjustForQuietHours_def getHours_def setHours_def addOneDay_def
      startOfDay_def msPerHour_def msPerDay_def)

section \<open>Effective weights\<close>

lemma effectiveWeight_withEffectiveWeight:
  "effectiveWeight (withEffectiveWeight now msg) = boostedWeight now msg"
  by (simp add: withEffectiveWeight_def message.defs weighted_message.defs)

lemma truncate_withEffectiveWeight:
  "message.truncate (withEffectiveWeight now msg) = msg"
  by (simp add: withEffectiveWeight_def message.defs weighted_message.defs)

text \<open>
  Claim C6. For a message whose weight is one of 1 to 5, the effective weight is the weight
  times 1.5 when the weight is 3 and the message is less than 14 days old, and the weight
  itself otherwise. A weight-3 message created one day ago weighs 4.5; one created 20 days
  ago weighs 3.
\<close>

theorem effectiveWeight_rule:
  assumes "1 \<le> weight msg" "weight msg \<le> 5"
  shows "effectiveWeight (withEffectiveWeight now msg) =
           (if weight msg = 3 \<and> now - createdAt msg < 14 * msPerDay
            then real_of_int (weight msg) * 1.5
            else real_of_int (weight msg))
       \<and> (weight msg = 3 \<and> now - createdAt msg = 1 * msPerDay \<longrightarrow>
            effectiveWeight (withEffectiveWeight now msg) = 4.5)
       \<and> (weight msg = 3 \<and> now - createdAt msg = 20 * msPerDay \<longrightarrow>
            effectiveWeight (withEffectiveWeight now msg) = 3)"
  using assms
  by (auto simp: effectiveWeight_withEffectiveWeight boostedWeight_def isMessageNew_def
      msPerDay_def Let_def)

theorem effectiveWeight_rule_witness:
  "1 \<le> weight (sampleMessage ''a'' 3 False 0) \<and> weight (sampleMessage ''a'' 3 False 0) \<le> 5
   \<and> effectiveWeight (withEffectiveWeight (1 * msPerDay) (sampleMessage ''a'' 3 False 0)) = 4.5
   \<and> effectiveWeight (withEffectiveWeight (20 * msPerDay) (sampleMessage ''a'' 3 False 0)) = 3
   \<and> effectiveWeight (withEffectiveWeight (1 * msPerDay) (sampleMessage ''b'' 5 False 0)) = 5"
proof -
  have w: "1 \<le> weight (sampleMessage ''a'' 3 False 0)" "weight (sampleMessage ''a'' 3 False 0) \<le> 5"
    "1 \<le> weight (sampleMessage ''b'' 5 False 0)" "weight (sampleMessage ''b'' 5 False 0) \<le> 5"
    by (simp_all add: sampleMessage_def)
  show ?thesis
    using w effectiveWeight_rule [OF w(1,2), of "1 * msPerDay"]
      effectiveWeight_rule [OF w(1,2), of "20 * msPerDay"]
      effectiveWeight_rule [OF w(3,4), of "1 * msPerDay"]
    by (simp add: sampleMessage_def msPerDay_def)
qed

section \<open>Weighted selection\<close>

lemma totalWeightOf_sum_aux:
  "foldl (\<lambda>sum msg. sum + effectiveWeight msg) a ws = a + sum_list (map effectiveWeight ws)"
  by (induction ws arbitrary: a) simp_all

lemma totalWeightOf_sum: "totalWeightOf ws = sum_list (map effectiveWeight ws)"
  by (simp add: totalWeightOf_def totalWeightOf_sum_aux)

lemma walk_hit:
  assumes "i < length ws" "remainderAfter ws x i \<le> 0" "\<forall>j<i. remainderAfter ws x j > 0"
  shows "walk ws x = Some (ws ! i)"
  using assms
proof (induction ws arbitrary: x i)
  case Nil
  then show ?case by simp
next
  case (Cons w ws)
  show ?case
  proof (cases i)
    case 0
    with Cons.prems show ?thesis by (simp add: remainderAfter_def)
  next
    case (Suc k)
    have shift: "remainderAfter (w # ws) x (Suc j) = remainderAfter ws (x - effectiveWeight w) j" for j
      by (simp add: remainderAfter_def)
    from Cons.prems Suc have first: "remainderAfter (w # ws) x 0 > 0" by blast
    have "walk ws (x - effectiveWeight w) = Some (ws ! k)"
    proof (rule Cons.IH)
      show "k < length ws" using Cons.prems Suc by simp
      show "remainderAfter ws (x - effectiveWeight w) k \<le> 0"
        using Cons.prems Suc shift by simp
      show "\<forall>j<k. 0 < remainderAfter ws (x - effectiveWeight w) j"
      proof (intro allI impI)
        fix j assume "j < k"
        then have "Suc j < i" using Suc by simp
        with Cons.prems have "0 < remainderAfter (w # ws) x (Suc j)" by blast
        then show "0 < remainderAfter ws (x - effectiveWeight w) j" by (simp add: shift)
      qed
    qed
    with first Suc show ?thesis by (simp add: remainderAfter_def)
  qed
qed

lemma walk_miss:
  assumes "\<forall>i<length ws. remainderAfter ws x i > 0"
  shows "walk ws x = None"
  using assms
proof (induction ws arbitrary: x)
  case Nil
  then show ?case by simp
next
  case (Cons w ws)
  have shift: "remainderAfter (w # ws) x (Suc j) = remainderAfter ws (x - effectiveWeight w) j" for j
    by (simp add: remainderAfter_def)
  from Cons.prems have first: "remainderAfter (w # ws) x 0 > 0" by auto
  have "\<forall>i<length ws. 0 < remainderAfter ws (x - effectiveWeight w) i"
  proof (intro allI impI)
    fix i assume "i < length ws"
    then have "Suc i < length (w # ws)" by simp
    with Cons.prems have "0 < remainderAfter (w # ws) x (Suc i)" by blast
    then show "0 < remainderAfter ws (x - effectiveWeight w) i" by (simp add: shift)
  qed
  then have "walk ws (x - effectiveWeight w) = None" by (rule Cons.IH)
  with first show ?case by (simp add: remainderAfter_def)
qed

lemma selectNextMessage_unfold:
  "selectNextMessage messages now r =
     (let cands = selectorCandidates messages now
      in if cands = [] then None
         else (case walk cands (r * sum_list (map effectiveWeight cands)) of
                 Some msg \<Rightarrow> Some msg | None \<Rightarrow> Some (cands ! 0)))"
  by (simp add: selectNextMessage_def selectorCandidates_def Let_def totalWeightOf_sum)

text \<open>
  Claim C5. The selector works on the non-nag messages only. With no candidate it answers
  none. Otherwise, with \<open>x = r * total\<close> the drawn value, it answers the first candidate in
  list order at which the remainder is 0 or less; when the remainder stays positive through
  the whole list it answers the first candidate.
\<close>

theorem selectNextMessage_rule:
  fixes messages :: "message list" and now :: instant and r :: real
  shows "(selectorCandidates messages now = [] \<longrightarrow> selectNextMessage messages now r = None)
       \<and> (\<forall>i < length (selectorCandidates messages now).
             remainderAfter (selectorCandidates messages now)
               (r * sum_list (map effectiveWeight (selectorCandidates messages now))) i \<le> 0
           \<and> (\<forall>j<i. remainderAfter (selectorCandidates messages now)
               (r * sum_list (map effectiveWeight (selectorCandidates messages now))) j > 0)
           \<longrightarrow> selectNextMessage messages now r = Some (selectorCandidates messages now ! i))
       \<and> (selectorCandidates messages now \<noteq> []
           \<and> (\<forall>i < length (selectorCandidates messages now).
                remainderAfter (selectorCandidates messages now)
                  (r * sum_list (map effectiveWeight (selectorCandidates messages now))) i > 0)
           \<longrightarrow> selectNextMessage messages now r = Some (selectorCandidates messages now ! 0))"
proof (intro conjI allI impI)
  assume "selectorCandidates messages now = []"
  then show "selectNextMessage messages now r = None"
    by (simp add: selectNextMessage_unfold)
next
  fix i
  assume i: "i < length (selectorCandidates messages now)"
    and hit: "remainderAfter (selectorCandidates messages now)
               (r * sum_list (map effectiveWeight (selectorCandidates messages now))) i \<le> 0
           \<and> (\<forall>j<i. remainderAfter (selectorCandidates messages now)
               (r * sum_list (map effectiveWeight (selectorCandidates messages now))) j > 0)"
  then have "walk (selectorCandidates messages now)
      (r * sum_list (map effectiveWeight (selectorCandidates messages now)))
      = Some (selectorCandidates messages now ! i)"
    by (intro walk_hit) simp_all
  moreover have "selectorCandidates messages now \<noteq> []" using i by auto
  ultimately show "selectNextMessage messages now r = Some (selectorCandidates messages now ! i)"
    by (simp add: selectNextMessage_unfold)
next
  assume miss: "selectorCandidates messages now \<noteq> []
           \<and> (\<forall>i < length (selectorCandidates messages now).
                remainderAfter (selectorCandidates messages now)
                  (r * sum_list (map effectiveWeight (selectorCandidates messages now))) i > 0)"
  then have "walk (selectorCandidates messages now)
      (r * sum_list (map effectiveWeight (selectorCandidates messages now))) = None"
    by (intro walk_miss) simp
  with miss show "selectNextMessage messages now r = Some (selectorCandidates messages now ! 0)"
    by (simp add: selectNextMessage_unfold)
qed


theorem selectNextMessage_rule_witness:
  "selectNextMessage [sampleMessage ''n'' 3 True 0] 0 (1 / 2) = None
   \<and> map_option msgId
        (selectNextMessage
           [sampleMessage ''a'' 2 False 0, sampleMessage ''n'' 3 True 0, sampleMessage ''b'' 4 False 0]
           0 (1 / 2)) = Some ''b''
   \<and> map_option msgId (selectNextMessage [sampleMessage ''z'' (- 2) False 0] 0 (1 / 2)) = Some ''z''"
proof -
  let ?a = "sampleMessage ''a'' 2 False 0" and ?n = "sampleMessage ''n'' 3 True 0"
    and ?b = "sampleMessage ''b'' 4 False 0" and ?z = "sampleMessage ''z'' (- 2) False 0"
  have ew: "effectiveWeight (withEffectiveWeight 0 ?a) = 2"
    "effectiveWeight (withEffectiveWeight 0 ?b) = 4"
    "effectiveWeight (withEffectiveWeight 0 ?z) = - 2"
    by (simp_all add: effectiveWeight_withEffectiveWeight boostedWeight_def sampleMessage_def)
  have ids: "msgId (withEffectiveWeight 0 ?b) = ''b''" "msgId (withEffectiveWeight 0 ?z) = ''z''"
    by (simp_all add: withEffectiveWeight_def message.defs sampleMessage_def)
  have c0: "selectorCandidates [?n] 0 = []"
    by (simp add: selectorCandidates_def sampleMessage_def)
  have c1: "selectorCandidates [?a, ?n, ?b] 0 = [withEffectiveWeight 0 ?a, withEffectiveWeight 0 ?b]"
    by (simp add: selectorCandidates_def sampleMessage_def)
  have c2: "selectorCandidates [?z] 0 = [withEffectiveWeight 0 ?z]"
    by (simp add: selectorCandidates_def sampleMessage_def)
  have r0: "selectNextMessage [?n] 0 (1 / 2) = None"
    using selectNextMessage_rule [of "[?n]" 0 "1 / 2"] c0 by blast
  have "selectNextMessage [?a, ?n, ?b] 0 (1 / 2) = Some ([withEffectiveWeight 0 ?a, withEffectiveWeight 0 ?b] ! 1)"
    using selectNextMessage_rule [of "[?a, ?n, ?b]" 0 "1 / 2",
        THEN conjunct2, THEN conjunct1, rule_format, of 1]
    by (simp add: c1 ew remainderAfter_def)
  then have r1: "map_option msgId (selectNextMessage [?a, ?n, ?b] 0 (1 / 2)) = Some ''b''"
    by (simp add: ids)
  have "selectNextMessage [?z] 0 (1 / 2) = Some ([withEffectiveWeight 0 ?z] ! 0)"
    using selectNextMessage_rule [of "[?z]" 0 "1 / 2"]
    by (simp add: c2 ew remainderAfter_def)
  then have r2: "map_option msgId (selectNextMessage [?z] 0 (1 / 2)) = Some ''z''"
    by (simp add: ids)
  show ?thesis using r0 r1 r2 by simp
qed

section \<open>The window sampler\<close>

lemma jsTrunc_bounds:
  assumes "0 \<le> y" "y < real_of_int w"
  shows "a \<le> jsTrunc (real_of_int a + y) \<and> jsTrunc (real_of_int a + y) \<le> a + w"
proof (cases "real_of_int a + y \<ge> 0")
  case True
  have "\<lfloor>real_of_int a + y\<rfloor> = a + \<lfloor>y\<rfloor>" by simp
  moreover have "0 \<le> \<lfloor>y\<rfloor>" using assms by simp
  moreover have "\<lfloor>y\<rfloor> < w" using assms by (simp add: floor_less_iff)
  ultimately show ?thesis using True by (simp add: jsTrunc_def)
next
  case False
  have "\<lceil>y + real_of_int a\<rceil> = \<lceil>y\<rceil> + a" by (rule ceiling_add_of_int)
  then have "\<lceil>real_of_int a + y\<rceil> = a + \<lceil>y\<rceil>" by (simp add: add.commute)
  moreover have "0 \<le> \<lceil>y\<rceil>" using assms by (simp add: le_ceiling_iff)
  moreover have "\<lceil>y\<rceil> \<le> w" using assms by (simp add: ceiling_le_iff)
  ultimately show ?thesis using False by (simp add: jsTrunc_def)
qed

lemma candidateAt_in_window:
  assumes "0 \<le> rnd k" "rnd k < 1" "0 < windowMs"
  shows "startTime \<le> candidateAt rnd startTime windowMs k
       \<and> candidateAt rnd startTime windowMs k \<le> startTime + windowMs"
  unfolding candidateAt_def
proof (rule jsTrunc_bounds)
  show "0 \<le> rnd k * real_of_int windowMs" using assms by simp
  show "rnd k * real_of_int windowMs < real_of_int windowMs" using assms by simp
qed

lemma attemptLoop_accepted:
  assumes "attemptLoop rnd startTime windowMs minGapMs now timesList attempts k = (Some v, k1)"
  shows "\<exists>j. v = candidateAt rnd startTime windowMs j \<and> \<not> turnedDown minGapMs now timesList v"
  using assms
proof (induction rnd startTime windowMs minGapMs now timesList attempts k
    rule: attemptLoop.induct)
  case (1 rnd startTime windowMs minGapMs now timesList attempts k)
  show ?case
  proof (cases "attempts < 50")
    case False
    with "1.prems" show ?thesis by (simp add: attemptLoop.simps)
  next
    case True
    show ?thesis
    proof (cases "turnedDown minGapMs now timesList (candidateAt rnd startTime windowMs k)")
      case False
      with True "1.prems" have "v = candidateAt rnd startTime windowMs k"
        by (simp add: attemptLoop.simps [of _ _ _ _ _ _ attempts] turnedDown_def candidateAt_def Let_def)
      with False show ?thesis by blast
    next
      case down: True
      with True "1.prems"
      have "attemptLoop rnd startTime windowMs minGapMs now timesList (Suc attempts) (Suc k)
          = (Some v, k1)"
        by (auto simp: attemptLoop.simps [of _ _ _ _ _ _ attempts] turnedDown_def candidateAt_def Let_def)
      moreover from down have "\<not> (\<not> list_ex (\<lambda>t. \<bar>jsTrunc (real_of_int startTime + rnd k * real_of_int windowMs) - t\<bar> < minGapMs) timesList
           \<and> now < jsTrunc (real_of_int startTime + rnd k * real_of_int windowMs))"
        by (simp add: turnedDown_def candidateAt_def)
      ultimately show ?thesis
        using "1.IH" [OF True refl refl refl] by blast
    qed
  qed
qed

lemma attemptLoop_exhausted:
  assumes "\<forall>j < 50 - attempts. turnedDown minGapMs now timesList (candidateAt rnd startTime windowMs (k + j))"
  shows "attemptLoop rnd startTime windowMs minGapMs now timesList attempts k
           = (None, k + (50 - attempts))"
  using assms
proof (induction rnd startTime windowMs minGapMs now timesList attempts k
    rule: attemptLoop.induct)
  case (1 rnd startTime windowMs minGapMs now timesList attempts k)
  show ?case
  proof (cases "attempts < 50")
    case False
    then show ?thesis by (simp add: attemptLoop.simps)
  next
    case True
    from "1.prems" True have down: "turnedDown minGapMs now timesList (candidateAt rnd startTime windowMs k)"
      by (metis add.right_neutral zero_less_diff)
    then have nd: "\<not> (\<not> list_ex (\<lambda>t. \<bar>jsTrunc (real_of_int startTime + rnd k * real_of_int windowMs) - t\<bar> < minGapMs) timesList
           \<and> now < jsTrunc (real_of_int startTime + rnd k * real_of_int windowMs))"
      by (simp add: turnedDown_def candidateAt_def)
    have rest: "\<forall>j < 50 - Suc attempts.
        turnedDown minGapMs now timesList (candidateAt rnd startTime windowMs (Suc k + j))"
    proof (intro allI impI)
      fix j assume "j < 50 - Suc attempts"
      then have "Suc j < 50 - attempts" by simp
      with "1.prems" have "turnedDown minGapMs now timesList (candidateAt rnd startTime windowMs (k + Suc j))"
        by blast
      then show "turnedDown minGapMs now timesList (candidateAt rnd startTime windowMs (Suc k + j))"
        by simp
    qed
    have "attemptLoop rnd startTime windowMs minGapMs now timesList (Suc attempts) (Suc k)
        = (None, Suc k + (50 - Suc attempts))"
      using "1.IH" [OF True refl refl refl nd rest] .
    with True down show ?thesis
      by (simp add: attemptLoop.simps [of _ _ _ _ _ _ attempts] turnedDown_def candidateAt_def Let_def)
  qed
qed

lemma slotLoop_invariant:
  assumes "I timesList"
    and "\<And>ts v k0 k1. I ts \<Longrightarrow>
           attemptLoop rnd startTime windowMs minGapMs now ts 0 k0 = (Some v, k1) \<Longrightarrow> I (ts @ [v])"
  shows "I (fst (slotLoop rnd startTime windowMs minGapMs now count i timesList k))"
  using assms
proof (induction rnd startTime windowMs minGapMs now count i timesList k rule: slotLoop.induct)
  case (1 rnd startTime windowMs minGapMs now count i timesList k)
  show ?case
  proof (cases "i < count")
    case False
    with "1.prems" show ?thesis by (simp add: slotLoop.simps)
  next
    case True
    obtain r k1 where a: "attemptLoop rnd startTime windowMs minGapMs now timesList 0 k = (r, k1)"
      by (cases "attemptLoop rnd startTime windowMs minGapMs now timesList 0 k")
    show ?thesis
    proof (cases r)
      case None
      have "I (fst (slotLoop rnd startTime windowMs minGapMs now count (i + 1) timesList k1))"
        using "1.IH"(1) [OF True a [symmetric] None] "1.prems" a None by blast
      with True a None show ?thesis
        by (simp add: slotLoop.simps [of _ _ _ _ _ _ i])
    next
      case (Some v)
      have "I (timesList @ [v])" using "1.prems" a Some by blast
      then have "I (fst (slotLoop rnd startTime windowMs minGapMs now count (i + 1) (timesList @ [v]) k1))"
        using "1.IH"(2) [OF True a [symmetric] Some] "1.prems"(2) by blast
      with True a Some show ?thesis
        by (simp add: slotLoop.simps [of _ _ _ _ _ _ i])
    qed
  qed
qed

lemma slotLoop_length:
  "length (fst (slotLoop rnd startTime windowMs minGapMs now count i timesList k))
     \<le> length timesList + nat (count - i)"
proof (induction rnd startTime windowMs minGapMs now count i timesList k rule: slotLoop.induct)
  case (1 rnd startTime windowMs minGapMs now count i timesList k)
  show ?case
  proof (cases "i < count")
    case False
    then show ?thesis by (simp add: slotLoop.simps)
  next
    case True
    then have step: "nat (count - i) = Suc (nat (count - (i + 1)))" by simp
    obtain r k1 where a: "attemptLoop rnd startTime windowMs minGapMs now timesList 0 k = (r, k1)"
      by (cases "attemptLoop rnd startTime windowMs minGapMs now timesList 0 k")
    show ?thesis
    proof (cases r)
      case None
      with True a "1.IH"(1) [OF True a [symmetric] None] step show ?thesis
        by (simp add: slotLoop.simps [of _ _ _ _ _ _ i])
    next
      case (Some v)
      with True a "1.IH"(2) [OF True a [symmetric] Some] step show ?thesis
        by (simp add: slotLoop.simps [of _ _ _ _ _ _ i])
    qed
  qed
qed

lemma startOfDay_idem: "startOfDay (startOfDay t) = startOfDay t"
  unfolding startOfDay_def msPerDay_def by simp

lemma windowOf_today:
  assumes "\<not> now > startOfDay now + endHour s * msPerHour"
  shows "windowOf s now
           = (startOfDay now + startHour s * msPerHour, startOfDay now + endHour s * msPerHour)"
  using assms by (simp add: windowOf_def setHours_def startOfDay_idem Let_def)

lemma windowOf_tomorrow:
  assumes "now > startOfDay now + endHour s * msPerHour"
  shows "windowOf s now
           = (startOfDay now + msPerDay + startHour s * msPerHour,
              startOfDay now + msPerDay + endHour s * msPerHour)"
  using assms by (simp add: windowOf_def setHours_def startOfDay_idem addOneDay_def Let_def)

lemma windowOf_length:
  "snd (windowOf s now) - fst (windowOf s now) = (endHour s - startHour s) * msPerHour"
  by (cases "now > startOfDay now + endHour s * msPerHour")
     (simp_all add: windowOf_today windowOf_tomorrow algebra_simps)

lemma spacedBy_append:
  assumes "spacedBy g ts" "\<not> turnedDown g now ts v"
  shows "spacedBy g (ts @ [v])"
proof -
  from assms(2) have far: "\<forall>t\<in>set ts. g \<le> \<bar>v - t\<bar>"
    by (auto simp: turnedDown_def list_ex_iff)
  then have far': "\<forall>t\<in>set ts. g \<le> \<bar>t - v\<bar>"
    by (simp add: abs_minus_commute)
  have "0 < g \<longrightarrow> v \<notin> set ts"
    using far by fastforce
  with assms(1) far far' show ?thesis
    by (auto simp: spacedBy_def)
qed

lemma spacedBy_nth:
  assumes "spacedBy g ts" "i < j" "j < length ts"
  shows "g \<le> \<bar>ts ! i - ts ! j\<bar>"
proof (cases "0 < g")
  case False
  then show ?thesis by simp
next
  case True
  with assms have "distinct ts" by (simp add: spacedBy_def)
  with assms have "ts ! i \<noteq> ts ! j" by (simp add: nth_eq_iff_index_eq)
  with assms show ?thesis by (simp add: spacedBy_def)
qed

lemma spacedBy_sort: "spacedBy g ts \<Longrightarrow> spacedBy g (sort ts)"
  by (simp add: spacedBy_def)

lemma slotLoop_spaced:
  "spacedBy minGapMs (fst (slotLoop rnd startTime windowMs minGapMs now count 0 [] k))"
proof (rule slotLoop_invariant)
  show "spacedBy minGapMs []" by (simp add: spacedBy_def)
next
  fix ts v k0 k1
  assume "spacedBy minGapMs ts"
    and "attemptLoop rnd startTime windowMs minGapMs now ts 0 k0 = (Some v, k1)"
  then show "spacedBy minGapMs (ts @ [v])"
    using attemptLoop_accepted spacedBy_append by blast
qed

lemma slotLoop_within:
  assumes "\<forall>j. 0 \<le> rnd j \<and> rnd j < 1" "0 < windowMs"
  shows "withinWindow startTime (startTime + windowMs) now
           (fst (slotLoop rnd startTime windowMs minGapMs now count 0 [] k))"
proof (rule slotLoop_invariant)
  show "withinWindow startTime (startTime + windowMs) now []"
    by (simp add: withinWindow_def)
next
  fix ts v k0 k1
  assume inv: "withinWindow startTime (startTime + windowMs) now ts"
    and acc: "attemptLoop rnd startTime windowMs minGapMs now ts 0 k0 = (Some v, k1)"
  from attemptLoop_accepted [OF acc] obtain j
    where v: "v = candidateAt rnd startTime windowMs j" and ok: "\<not> turnedDown minGapMs now ts v"
    by blast
  have "startTime \<le> v \<and> v \<le> startTime + windowMs"
    unfolding v using assms by (intro candidateAt_in_window) simp_all
  moreover from ok have "now < v" by (simp add: turnedDown_def)
  ultimately show "withinWindow startTime (startTime + windowMs) now (ts @ [v])"
    using inv by (simp add: withinWindow_def)
qed

lemma calculateNotificationTimes_unfold:
  "fst (calculateNotificationTimes s now rnd k) =
     sort (fst (slotLoop rnd (fst (windowOf s now)) (snd (windowOf s now) - fst (windowOf s now))
                  (minGapHours s * msPerHour) now (dailyFrequency s) 0 [] k))"
  by (auto simp: calculateNotificationTimes_def msPerHour_def Let_def mult.commute
      split: prod.splits)

text \<open>
  Claim C1. With \<open>startHour < endHour\<close> and draws in \<open>[0, 1)\<close>: when \<open>now\<close> is before
  \<open>endHour:00\<close> of its day, every returned instant lies in today's window
  \<open>[startHour:00, endHour:00]\<close> and is later than \<open>now\<close>; when \<open>now\<close> is past \<open>endHour:00\<close>,
  every returned instant lies in that window moved forward by one day.
\<close>

theorem calculateNotificationTimes_window:
  assumes "startHour s < endHour s" "\<forall>j. 0 \<le> rnd j \<and> rnd j < 1"
  shows "(now < startOfDay now + endHour s * msPerHour \<longrightarrow>
            (\<forall>t \<in> set (fst (calculateNotificationTimes s now rnd k)).
               startOfDay now + startHour s * msPerHour \<le> t
             \<and> t \<le> startOfDay now + endHour s * msPerHour
             \<and> now < t))
       \<and> (now > startOfDay now + endHour s * msPerHour \<longrightarrow>
            (\<forall>t \<in> set (fst (calculateNotificationTimes s now rnd k)).
               startOfDay now + msPerDay + startHour s * msPerHour \<le> t
             \<and> t \<le> startOfDay now + msPerDay + endHour s * msPerHour))"
proof -
  let ?lo = "fst (windowOf s now)" and ?hi = "snd (windowOf s now)"
  have len: "0 < ?hi - ?lo"
    using assms(1) by (simp add: windowOf_length msPerHour_def)
  have "withinWindow ?lo (?lo + (?hi - ?lo)) now
          (fst (slotLoop rnd ?lo (?hi - ?lo) (minGapHours s * msPerHour) now (dailyFrequency s) 0 [] k))"
    using assms(2) len by (rule slotLoop_within)
  then have all: "\<forall>t \<in> set (fst (calculateNotificationTimes s now rnd k)).
      ?lo \<le> t \<and> t \<le> ?hi \<and> now < t"
    by (simp add: calculateNotificationTimes_unfold withinWindow_def)
  show ?thesis
  proof (intro conjI impI)
    assume "now < startOfDay now + endHour s * msPerHour"
    then have "windowOf s now
        = (startOfDay now + startHour s * msPerHour, startOfDay now + endHour s * msPerHour)"
      by (intro windowOf_today) simp
    with all show "\<forall>t \<in> set (fst (calculateNotificationTimes s now rnd k)).
               startOfDay now + startHour s * msPerHour \<le> t
             \<and> t \<le> startOfDay now + endHour s * msPerHour
             \<and> now < t"
      by simp
  next
    assume "now > startOfDay now + endHour s * msPerHour"
    then have "windowOf s now
        = (startOfDay now + msPerDay + startHour s * msPerHour,
           startOfDay now + msPerDay + endHour s * msPerHour)"
      by (rule windowOf_tomorrow)
    with all show "\<forall>t \<in> set (fst (calculateNotificationTimes s now rnd k)).
               startOfDay now + msPerDay + startHour s * msPerHour \<le> t
             \<and> t \<le> startOfDay now + msPerDay + endHour s * msPerHour"
      by simp
  qed
qed

theorem calculateNotificationTimes_window_witness:
  "fst (calculateNotificationTimes defaultSettings (9 * msPerHour) (\<lambda>k. 1 / (2 + real k)) 0)
     = [37200000, 45600000, 54000000]
   \<and> list_all (\<lambda>t. 8 * msPerHour \<le> t \<and> t \<le> 22 * msPerHour \<and> 9 * msPerHour < t)
        (fst (calculateNotificationTimes defaultSettings (9 * msPerHour) (\<lambda>k. 1 / (2 + real k)) 0))
   \<and> fst (calculateNotificationTimes defaultSettings (23 * msPerHour) (\<lambda>k. 1 / (2 + real k)) 0)
     = [123600000, 132000000, 140400000]
   \<and> list_all (\<lambda>t. msPerDay + 8 * msPerHour \<le> t \<and> t \<le> msPerDay + 22 * msPerHour)
        (fst (calculateNotificationTimes defaultSettings (23 * msPerHour) (\<lambda>k. 1 / (2 + real k)) 0))"
proof -
  let ?rnd = "\<lambda>k. 1 / (2 + real k)"
  have ds: "startHour defaultSettings = 8" "endHour defaultSettings = 22"
    by (simp_all add: defaultSettings_def)
  have h1: "startHour defaultSettings < endHour defaultSettings"
    by (simp add: ds)
  have h2: "\<forall>j. 0 \<le> ?rnd j \<and> ?rnd j < 1"
    by simp
  have sod: "startOfDay (9 * msPerHour) = 0" "startOfDay (23 * msPerHour) = 0"
    by (simp_all add: startOfDay_def msPerHour_def msPerDay_def)
  have before: "9 * msPerHour < startOfDay (9 * msPerHour) + endHour defaultSettings * msPerHour"
    unfolding sod ds by (simp add: msPerHour_def)
  have past: "23 * msPerHour > startOfDay (23 * msPerHour) + endHour defaultSettings * msPerHour"
    unfolding sod ds by (simp add: msPerHour_def)
  have e9: "fst (calculateNotificationTimes defaultSettings (9 * msPerHour) ?rnd 0)
     = [37200000, 45600000, 54000000]"
    by code_simp
  have e23: "fst (calculateNotificationTimes defaultSettings (23 * msPerHour) ?rnd 0)
     = [123600000, 132000000, 140400000]"
    by code_simp
  have w9: "list_all (\<lambda>t. 8 * msPerHour \<le> t \<and> t \<le> 22 * msPerHour \<and> 9 * msPerHour < t)
        (fst (calculateNotificationTimes defaultSettings (9 * msPerHour) ?rnd 0))"
    using calculateNotificationTimes_window [OF h1 h2, of "9 * msPerHour" 0] before
    by (simp add: list_all_iff sod ds)
  have w23: "list_all (\<lambda>t. msPerDay + 8 * msPerHour \<le> t \<and> t \<le> msPerDay + 22 * msPerHour)
        (fst (calculateNotificationTimes defaultSettings (23 * msPerHour) ?rnd 0))"
    using calculateNotificationTimes_window [OF h1 h2, of "23 * msPerHour" 0] past
    by (simp add: list_all_iff sod ds)
  show ?thesis using e9 e23 w9 w23 by blast
qed

text \<open>
  Claim C2. For a daily frequency that is not negative, the returned sequence has at most
  \<open>dailyFrequency\<close> elements, is sorted ascending, and any two of its entries are at least
  \<open>minGapHours\<close> hours apart. A slot whose 50 candidates are all turned down adds nothing:
  the inner loop answers \<open>None\<close> after exactly 50 draws, and the list goes on unchanged.
\<close>

theorem calculateNotificationTimes_shape:
  assumes "0 \<le> dailyFrequency s"
  shows "int (length (fst (calculateNotificationTimes s now rnd k))) \<le> dailyFrequency s
       \<and> sorted (fst (calculateNotificationTimes s now rnd k))
       \<and> (\<forall>i j. i < j \<and> j < length (fst (calculateNotificationTimes s now rnd k)) \<longrightarrow>
             minGapHours s * msPerHour
               \<le> \<bar>fst (calculateNotificationTimes s now rnd k) ! i
                   - fst (calculateNotificationTimes s now rnd k) ! j\<bar>)
       \<and> (\<forall>ts k0.
             (\<forall>j < 50. turnedDown (minGapHours s * msPerHour) now ts
                 (candidateAt rnd (fst (windowOf s now))
                    (snd (windowOf s now) - fst (windowOf s now)) (k0 + j))) \<longrightarrow>
             attemptLoop rnd (fst (windowOf s now)) (snd (windowOf s now) - fst (windowOf s now))
                 (minGapHours s * msPerHour) now ts 0 k0 = (None, k0 + 50)
           \<and> (\<forall>i < dailyFrequency s.
                 slotLoop rnd (fst (windowOf s now)) (snd (windowOf s now) - fst (windowOf s now))
                   (minGapHours s * msPerHour) now (dailyFrequency s) i ts k0
               = slotLoop rnd (fst (windowOf s now)) (snd (windowOf s now) - fst (windowOf s now))
                   (minGapHours s * msPerHour) now (dailyFrequency s) (i + 1) ts (k0 + 50)))"
proof (intro conjI allI impI)
  have "length (fst (calculateNotificationTimes s now rnd k)) \<le> nat (dailyFrequency s)"
    using slotLoop_length [of rnd _ _ _ now "dailyFrequency s" 0 "[]" k]
    by (simp add: calculateNotificationTimes_unfold)
  with assms show "int (length (fst (calculateNotificationTimes s now rnd k))) \<le> dailyFrequency s"
    by simp
next
  show "sorted (fst (calculateNotificationTimes s now rnd k))"
    by (simp add: calculateNotificationTimes_unfold)
next
  fix i j
  assume ij: "i < j \<and> j < length (fst (calculateNotificationTimes s now rnd k))"
  have "spacedBy (minGapHours s * msPerHour) (fst (calculateNotificationTimes s now rnd k))"
    unfolding calculateNotificationTimes_unfold by (intro spacedBy_sort slotLoop_spaced)
  with ij show "minGapHours s * msPerHour
               \<le> \<bar>fst (calculateNotificationTimes s now rnd k) ! i
                   - fst (calculateNotificationTimes s now rnd k) ! j\<bar>"
    by (intro spacedBy_nth) simp_all
next
  fix ts k0
  assume down: "\<forall>j < 50. turnedDown (minGapHours s * msPerHour) now ts
                 (candidateAt rnd (fst (windowOf s now))
                    (snd (windowOf s now) - fst (windowOf s now)) (k0 + j))"
  then show none: "attemptLoop rnd (fst (windowOf s now)) (snd (windowOf s now) - fst (windowOf s now))
                 (minGapHours s * msPerHour) now ts 0 k0 = (None, k0 + 50)"
    using attemptLoop_exhausted [of 0 "minGapHours s * msPerHour" now ts rnd
        "fst (windowOf s now)" "snd (windowOf s now) - fst (windowOf s now)" k0]
    by simp
  fix i
  assume "i < dailyFrequency s"
  with none show "slotLoop rnd (fst (windowOf s now)) (snd (windowOf s now) - fst (windowOf s now))
                   (minGapHours s * msPerHour) now (dailyFrequency s) i ts k0
               = slotLoop rnd (fst (windowOf s now)) (snd (windowOf s now) - fst (windowOf s now))
                   (minGapHours s * msPerHour) now (dailyFrequency s) (i + 1) ts (k0 + 50)"
    by (simp add: slotLoop.simps [of _ _ _ _ _ _ i])
qed

theorem calculateNotificationTimes_shape_witness:
  "0 \<le> dailyFrequency defaultSettings
   \<and> calculateNotificationTimes defaultSettings (9 * msPerHour) (\<lambda>k. 1 / 2) 0 = ([54000000], 101)
   \<and> int (length (fst (calculateNotificationTimes defaultSettings (9 * msPerHour) (\<lambda>k. 1 / 2) 0)))
       \<le> dailyFrequency defaultSettings
   \<and> sorted (fst (calculateNotificationTimes defaultSettings (9 * msPerHour) (\<lambda>k. 1 / 2) 0))
   \<and> attemptLoop (\<lambda>k. 1 / 2) (8 * msPerHour) (14 * msPerHour) (2 * msPerHour) (9 * msPerHour)
        [54000000] 0 1 = (None, 51)
   \<and> minGapHours defaultSettings * msPerHour
        \<le> \<bar>fst (calculateNotificationTimes defaultSettings (9 * msPerHour) (\<lambda>k. 1 / (2 + real k)) 0) ! 0
            - fst (calculateNotificationTimes defaultSettings (9 * msPerHour) (\<lambda>k. 1 / (2 + real k)) 0) ! 1\<bar>"
proof -
  have h: "0 \<le> dailyFrequency defaultSettings"
    by (simp add: defaultSettings_def)
  have ds: "minGapHours defaultSettings = 2" "dailyFrequency defaultSettings = 3"
    by (simp_all add: defaultSettings_def)
  have e: "calculateNotificationTimes defaultSettings (9 * msPerHour) (\<lambda>k. 1 / 2) 0 = ([54000000], 101)"
    by code_simp
  have w: "windowOf defaultSettings (9 * msPerHour) = (8 * msPerHour, 22 * msPerHour)"
    by code_simp
  have c: "candidateAt (\<lambda>k. 1 / 2) (8 * msPerHour) (14 * msPerHour) j = 54000000" for j
    by (simp add: candidateAt_def jsTrunc_def msPerHour_def)
  have down: "turnedDown (2 * msPerHour) (9 * msPerHour) [54000000] 54000000"
    by (simp add: turnedDown_def msPerHour_def)
  note r = calculateNotificationTimes_shape [OF h, of "9 * msPerHour" "\<lambda>k. 1 / 2" 0]
  from r have len: "int (length (fst (calculateNotificationTimes defaultSettings (9 * msPerHour) (\<lambda>k. 1 / 2) 0)))
       \<le> dailyFrequency defaultSettings"
    and srt: "sorted (fst (calculateNotificationTimes defaultSettings (9 * msPerHour) (\<lambda>k. 1 / 2) 0))"
    by blast+
  have skip: "attemptLoop (\<lambda>k. 1 / 2) (8 * msPerHour) (14 * msPerHour) (2 * msPerHour) (9 * msPerHour)
        [54000000] 0 1 = (None, 51)"
    using r [THEN conjunct2, THEN conjunct2, THEN conjunct2, rule_format, of "[54000000]" 1,
        THEN conjunct1]
    by (simp add: w ds c down)
  have e2: "length (fst (calculateNotificationTimes defaultSettings (9 * msPerHour) (\<lambda>k. 1 / (2 + real k)) 0)) = 3"
    by code_simp
  have gap: "minGapHours defaultSettings * msPerHour
        \<le> \<bar>fst (calculateNotificationTimes defaultSettings (9 * msPerHour) (\<lambda>k. 1 / (2 + real k)) 0) ! 0
            - fst (calculateNotificationTimes defaultSettings (9 * msPerHour) (\<lambda>k. 1 / (2 + real k)) 0) ! 1\<bar>"
    using calculateNotificationTimes_shape [OF h, of "9 * msPerHour" "\<lambda>k. 1 / (2 + real k)" 0,
        THEN conjunct2, THEN conjunct2, THEN conjunct1, rule_format, of 0 1]
    by (simp add: e2)
  show ?thesis using h e len srt skip gap by blast
qed

section \<open>The recurring nag planner\<close>

lemma less_startOfDay_next: "t < startOfDay t + msPerDay"
  unfolding startOfDay_def msPerDay_def by simp

lemma adjust_not_backward:
  assumes "startHour s < endHour s" "0 \<le> startHour s"
  shows "t \<le> adjustForQuietHours t s"
proof -
  consider "getHours t < startHour s" | "endHour s \<le> getHours t"
    | "startHour s \<le> getHours t" "getHours t < endHour s"
    by linarith
  then show ?thesis
  proof cases
    case 1
    then have "t < startOfDay t + startHour s * msPerHour"
      by (simp add: getHours_less_iff)
    with 1 assms show ?thesis by (simp add: adjust_before)
  next
    case 2
    have "0 \<le> startHour s * msPerHour" using assms by (simp add: msPerHour_def)
    with less_startOfDay_next [of t] have "t \<le> startOfDay t + msPerDay + startHour s * msPerHour"
      by linarith
    with 2 assms show ?thesis by (simp add: adjust_after)
  next
    case 3
    then show ?thesis by (simp add: adjust_inside)
  qed
qed

lemma nagLoop_isNagPlan:
  assumes "isNagPlan currentTime endTime intervalMs s ts"
  shows "nagLoop currentTime endTime intervalMs s acc = Some (acc @ ts)"
  using assms
proof (induction ts arbitrary: currentTime acc)
  case Nil
  then show ?case by (simp add: nagLoop.simps)
next
  case (Cons t ts)
  then have "nagLoop (adjustForQuietHours (currentTime + intervalMs) s) endTime intervalMs s
      (acc @ [currentTime]) = Some ((acc @ [currentTime]) @ ts)"
    by simp
  with Cons.prems show ?case
    by (simp add: nagLoop.simps [of currentTime])
qed

lemma isNagPlan_exists:
  assumes "0 < intervalMs" "startHour s < endHour s" "0 \<le> startHour s"
  shows "\<exists>ts. isNagPlan currentTime endTime intervalMs s ts"
proof (induction "nat (endTime - currentTime)" arbitrary: currentTime rule: less_induct)
  case less
  show ?case
  proof (cases "currentTime < endTime")
    case False
    then have "isNagPlan currentTime endTime intervalMs s []" by simp
    then show ?thesis ..
  next
    case True
    let ?next = "adjustForQuietHours (currentTime + intervalMs) s"
    have "currentTime + intervalMs \<le> ?next"
      using assms by (intro adjust_not_backward)
    with assms(1) True have "nat (endTime - ?next) < nat (endTime - currentTime)"
      by linarith
    then obtain ts where "isNagPlan ?next endTime intervalMs s ts"
      using less by blast
    with True have "isNagPlan currentTime endTime intervalMs s (currentTime # ts)"
      by simp
    then show ?thesis ..
  qed
qed

lemma isNagPlan_before_end:
  "isNagPlan currentTime endTime intervalMs s ts \<Longrightarrow> \<forall>t\<in>set ts. t < endTime"
  by (induction ts arbitrary: currentTime) auto

lemma isNagPlan_hd:
  "isNagPlan currentTime endTime intervalMs s ts \<Longrightarrow> ts \<noteq> [] \<Longrightarrow> ts ! 0 = currentTime"
  by (cases ts) auto

lemma isNagPlan_chain:
  "isNagPlan currentTime endTime intervalMs s ts \<Longrightarrow> Suc i < length ts \<Longrightarrow>
     ts ! Suc i = adjustForQuietHours (ts ! i + intervalMs) s"
proof (induction ts arbitrary: currentTime i)
  case Nil
  then show ?case by simp
next
  case (Cons t ts)
  from Cons.prems have rest: "isNagPlan (adjustForQuietHours (t + intervalMs) s) endTime intervalMs s ts"
    and ne: "ts \<noteq> []"
    by auto
  show ?case
  proof (cases i)
    case 0
    with isNagPlan_hd [OF rest ne] show ?thesis by simp
  next
    case (Suc k)
    with Cons.prems have "Suc k < length ts" by simp
    with Cons.IH [OF rest] Suc show ?thesis by simp
  qed
qed

lemma isNagPlan_active:
  assumes "isNagPlan currentTime endTime intervalMs s ts"
    and "startHour s \<le> getHours currentTime \<and> getHours currentTime < endHour s"
    and "startHour s < endHour s" "0 \<le> startHour s" "startHour s < 24"
  shows "\<forall>t\<in>set ts. startHour s \<le> getHours t \<and> getHours t < endHour s"
  using assms(1,2)
proof (induction ts arbitrary: currentTime)
  case Nil
  then show ?case by simp
next
  case (Cons t ts)
  have "startHour s \<le> getHours (adjustForQuietHours (currentTime + intervalMs) s)
      \<and> getHours (adjustForQuietHours (currentTime + intervalMs) s) < endHour s"
    using assms(3-5) by (rule adjust_hour_active)
  with Cons show ?case by auto
qed

lemma isNagPlan_lower:
  assumes "isNagPlan currentTime endTime intervalMs s ts"
    and "startHour s < endHour s" "0 \<le> startHour s"
  shows "\<forall>i<length ts. currentTime + int i * intervalMs \<le> ts ! i"
  using assms(1)
proof (induction ts arbitrary: currentTime)
  case Nil
  then show ?case by simp
next
  case (Cons t ts)
  let ?next = "adjustForQuietHours (currentTime + intervalMs) s"
  from Cons.prems have t: "t = currentTime" and rest: "isNagPlan ?next endTime intervalMs s ts"
    by simp_all
  have step: "currentTime + intervalMs \<le> ?next"
    using assms(2,3) by (intro adjust_not_backward)
  show ?case
  proof (intro allI impI)
    fix i assume i: "i < length (t # ts)"
    show "currentTime + int i * intervalMs \<le> (t # ts) ! i"
    proof (cases i)
      case 0
      with t show ?thesis by simp
    next
      case (Suc k)
      with i have "k < length ts" by simp
      with Cons.IH [OF rest] have "?next + int k * intervalMs \<le> ts ! k" by blast
      with step Suc show ?thesis by (simp add: algebra_simps)
    qed
  qed
qed

lemma isNagPlan_length:
  assumes "isNagPlan currentTime endTime intervalMs s ts"
    and "startHour s < endHour s" "0 \<le> startHour s"
  shows "currentTime + int (length ts) * intervalMs < endTime + intervalMs \<or> ts = []"
proof (cases ts rule: rev_cases)
  case Nil
  then show ?thesis by simp
next
  case (snoc us u)
  have "last ts < endTime"
    using isNagPlan_before_end [OF assms(1)] snoc by simp
  moreover have "length ts - 1 < length ts" using snoc by simp
  then have "currentTime + int (length ts - 1) * intervalMs \<le> ts ! (length ts - 1)"
    using isNagPlan_lower [OF assms] by blast
  moreover have "ts ! (length ts - 1) = last ts"
    using snoc by (simp add: nth_append)
  moreover have "int (length ts) * intervalMs = int (length ts - 1) * intervalMs + intervalMs"
    using snoc by (simp add: algebra_simps)
  ultimately show ?thesis by linarith
qed

lemma planNagTimes_isNagPlan:
  assumes "isNagPlan (adjustForQuietHours (now + nagIntervalMinutes msg * msPerMinute) s)
             (now + msPerDay) (nagIntervalMinutes msg * msPerMinute) s ts"
  shows "planNagTimes msg s now = Some ts"
  using nagLoop_isNagPlan [OF assms, of "[]"]
  by (simp add: planNagTimes_def msPerMinute_def msPerDay_def Let_def mult.commute)

lemma intervalMs_positive: "1 \<le> nagIntervalMinutes msg \<Longrightarrow> 0 < nagIntervalMinutes msg * msPerMinute"
  by (simp add: msPerMinute_def)

lemma isNagPlan_nonempty:
  "isNagPlan currentTime endTime intervalMs s ts \<Longrightarrow> currentTime < endTime \<Longrightarrow> ts \<noteq> []"
  by (cases ts) auto

lemma isNagPlan_last:
  "isNagPlan currentTime endTime intervalMs s ts \<Longrightarrow> ts \<noteq> [] \<Longrightarrow>
     endTime \<le> adjustForQuietHours (last ts + intervalMs) s"
proof (induction ts arbitrary: currentTime)
  case Nil
  then show ?case by simp
next
  case (Cons t ts)
  from Cons.prems have t: "t = currentTime"
    and rest: "isNagPlan (adjustForQuietHours (t + intervalMs) s) endTime intervalMs s ts"
    by simp_all
  show ?case
  proof (cases "ts = []")
    case True
    with rest show ?thesis by simp
  next
    case False
    with Cons.IH [OF rest] show ?thesis by simp
  qed
qed

lemma isNagPlan_unique:
  "isNagPlan currentTime endTime intervalMs s ts \<Longrightarrow>
   isNagPlan currentTime endTime intervalMs s us \<Longrightarrow> ts = us"
proof (induction ts arbitrary: currentTime us)
  case Nil
  then show ?case by (cases us) auto
next
  case (Cons t ts)
  then show ?case by (cases us) auto
qed

text \<open>
  Claim C3. For a message with \<open>nagIntervalMinutes \<ge> 1\<close> and settings with
  \<open>startHour < endHour\<close> (the start hour being an hour of the day, 0 to 23), the planning loop
  returns the one sequence that starts at the adjustment of \<open>now + interval\<close>, goes on from
  each instant to the adjustment of that instant plus the interval, and stops at the first
  such instant that is not before \<open>now + 24h\<close>. Every instant of it is before \<open>now + 24h\<close>
  and has its hour of day in \<open>[startHour, endHour)\<close>; it is not empty when the first
  adjusted instant is before the horizon, and the instant that would follow its last one
  reaches the horizon.
\<close>

theorem planNagTimes_instants:
  assumes "1 \<le> nagIntervalMinutes msg" "startHour s < endHour s"
    and "0 \<le> startHour s" "startHour s < 24"
  shows "\<exists>ts. planNagTimes msg s now = Some ts
       \<and> isNagPlan (adjustForQuietHours (now + nagIntervalMinutes msg * msPerMinute) s)
            (now + 24 * msPerHour) (nagIntervalMinutes msg * msPerMinute) s ts
       \<and> (\<forall>us. isNagPlan (adjustForQuietHours (now + nagIntervalMinutes msg * msPerMinute) s)
                  (now + 24 * msPerHour) (nagIntervalMinutes msg * msPerMinute) s us
               \<longrightarrow> us = ts)
       \<and> (\<forall>t\<in>set ts. t < now + 24 * msPerHour
                     \<and> startHour s \<le> getHours t \<and> getHours t < endHour s)
       \<and> (adjustForQuietHours (now + nagIntervalMinutes msg * msPerMinute) s
             < now + 24 * msPerHour \<longrightarrow> ts \<noteq> [])
       \<and> (ts \<noteq> [] \<longrightarrow>
            ts ! 0 = adjustForQuietHours (now + nagIntervalMinutes msg * msPerMinute) s
          \<and> now + 24 * msPerHour
              \<le> adjustForQuietHours (last ts + nagIntervalMinutes msg * msPerMinute) s)
       \<and> (\<forall>i. Suc i < length ts \<longrightarrow>
            ts ! Suc i = adjustForQuietHours (ts ! i + nagIntervalMinutes msg * msPerMinute) s)"
proof -
  let ?iv = "nagIntervalMinutes msg * msPerMinute"
  let ?first = "adjustForQuietHours (now + ?iv) s"
  have day: "now + 24 * msPerHour = now + msPerDay"
    by (simp add: msPerHour_def msPerDay_def)
  obtain ts where plan: "isNagPlan ?first (now + msPerDay) ?iv s ts"
    using isNagPlan_exists [OF intervalMs_positive [OF assms(1)] assms(2,3)] by blast
  have "planNagTimes msg s now = Some ts"
    using plan by (rule planNagTimes_isNagPlan)
  moreover have "isNagPlan ?first (now + 24 * msPerHour) ?iv s ts"
    using plan by (simp only: day)
  moreover have "\<forall>us. isNagPlan ?first (now + 24 * msPerHour) ?iv s us \<longrightarrow> us = ts"
    using plan isNagPlan_unique unfolding day by blast
  moreover have "\<forall>t\<in>set ts. t < now + 24 * msPerHour"
    using isNagPlan_before_end [OF plan] by (simp add: day)
  moreover have "\<forall>t\<in>set ts. startHour s \<le> getHours t \<and> getHours t < endHour s"
    using plan adjust_hour_active [OF assms(2-4)] assms(2-4) by (rule isNagPlan_active)
  moreover have "?first < now + 24 * msPerHour \<longrightarrow> ts \<noteq> []"
    using isNagPlan_nonempty [OF plan] by (simp add: day)
  moreover have "ts \<noteq> [] \<longrightarrow> ts ! 0 = ?first"
    using isNagPlan_hd [OF plan] by blast
  moreover have "ts \<noteq> [] \<longrightarrow> now + 24 * msPerHour \<le> adjustForQuietHours (last ts + ?iv) s"
    using isNagPlan_last [OF plan] by (simp add: day)
  moreover have "\<forall>i. Suc i < length ts \<longrightarrow> ts ! Suc i = adjustForQuietHours (ts ! i + ?iv) s"
    using isNagPlan_chain [OF plan] by blast
  ultimately show ?thesis by blast
qed

theorem planNagTimes_instants_witness:
  "planNagTimes sampleNag defaultSettings (9 * msPerHour)
     = Some [37800000, 43200000, 48600000, 54000000, 59400000, 64800000, 70200000,
             75600000, 115200000]
   \<and> isNagPlan (adjustForQuietHours (9 * msPerHour + 90 * msPerMinute) defaultSettings)
        (9 * msPerHour + 24 * msPerHour) (90 * msPerMinute) defaultSettings
        [37800000, 43200000, 48600000, 54000000, 59400000, 64800000, 70200000,
         75600000, 115200000]
   \<and> list_all (\<lambda>t. t < 9 * msPerHour + 24 * msPerHour \<and> 8 \<le> getHours t \<and> getHours t < 22)
        [37800000, 43200000, 48600000, 54000000, 59400000, 64800000, 70200000,
         75600000, 115200000]
   \<and> adjustForQuietHours (9 * msPerHour + 90 * msPerMinute) defaultSettings = 37800000
   \<and> adjustForQuietHours (75600000 + 90 * msPerMinute) defaultSettings = 115200000
   \<and> 9 * msPerHour + 24 * msPerHour
        \<le> adjustForQuietHours (115200000 + 90 * msPerMinute) defaultSettings"
proof -
  let ?ts = "[37800000, 43200000, 48600000, 54000000, 59400000, 64800000, 70200000,
             75600000, 115200000] :: int list"
  have h: "1 \<le> nagIntervalMinutes sampleNag" "startHour defaultSettings < endHour defaultSettings"
    "0 \<le> startHour defaultSettings" "startHour defaultSettings < 24"
    by (simp_all add: sampleNag_def sampleMessage_def defaultSettings_def)
  have v: "nagIntervalMinutes sampleNag = 90" "startHour defaultSettings = 8"
    "endHour defaultSettings = 22"
    by (simp_all add: sampleNag_def sampleMessage_def defaultSettings_def)
  have e: "planNagTimes sampleNag defaultSettings (9 * msPerHour) = Some ?ts"
    by code_simp
  from planNagTimes_instants [OF h, of "9 * msPerHour"] e
  have plan: "isNagPlan (adjustForQuietHours (9 * msPerHour + nagIntervalMinutes sampleNag * msPerMinute) defaultSettings)
        (9 * msPerHour + 24 * msPerHour) (nagIntervalMinutes sampleNag * msPerMinute) defaultSettings ?ts"
    and all: "\<forall>t\<in>set ?ts. t < 9 * msPerHour + 24 * msPerHour
                     \<and> startHour defaultSettings \<le> getHours t \<and> getHours t < endHour defaultSettings"
    and first: "?ts ! 0 = adjustForQuietHours (9 * msPerHour + nagIntervalMinutes sampleNag * msPerMinute) defaultSettings"
    and fin: "9 * msPerHour + 24 * msPerHour
        \<le> adjustForQuietHours (last ?ts + nagIntervalMinutes sampleNag * msPerMinute) defaultSettings"
    and chain: "\<forall>i. Suc i < length ?ts \<longrightarrow>
            ?ts ! Suc i = adjustForQuietHours (?ts ! i + nagIntervalMinutes sampleNag * msPerMinute) defaultSettings"
    by auto
  from plan have p: "isNagPlan (adjustForQuietHours (9 * msPerHour + 90 * msPerMinute) defaultSettings)
        (9 * msPerHour + 24 * msPerHour) (90 * msPerMinute) defaultSettings ?ts"
    unfolding v .
  from all have a: "list_all (\<lambda>t. t < 9 * msPerHour + 24 * msPerHour \<and> 8 \<le> getHours t \<and> getHours t < 22) ?ts"
    unfolding v list_all_iff by blast
  from first have f: "adjustForQuietHours (9 * msPerHour + 90 * msPerMinute) defaultSettings = 37800000"
    unfolding v by simp
  from fin have l: "9 * msPerHour + 24 * msPerHour
        \<le> adjustForQuietHours (115200000 + 90 * msPerMinute) defaultSettings"
    unfolding v by simp
  from chain have "Suc 7 < length ?ts \<longrightarrow>
            ?ts ! Suc 7 = adjustForQuietHours (?ts ! 7 + nagIntervalMinutes sampleNag * msPerMinute) defaultSettings"
    by blast
  then have c: "adjustForQuietHours (75600000 + 90 * msPerMinute) defaultSettings = 115200000"
    unfolding v by simp
  show ?thesis using e p a f c l by blast
qed

text \<open>
  Claim C7. For a message with \<open>nagIntervalMinutes \<ge> 1\<close> and settings with
  \<open>startHour < endHour\<close> (the start hour not negative), the adjustment never moves an
  instant backward, so the planning loop ends: it returns a sequence in which each instant is
  at least one interval after its predecessor, and whose length times the interval is
  less than the 24-hour horizon.
\<close>

theorem planNagTimes_terminates:
  assumes "1 \<le> nagIntervalMinutes msg" "startHour s < endHour s" "0 \<le> startHour s"
  shows "(\<forall>t. t \<le> adjustForQuietHours t s)
       \<and> (\<exists>ts. planNagTimes msg s now = Some ts
             \<and> (\<forall>i. Suc i < length ts \<longrightarrow>
                   ts ! i + nagIntervalMinutes msg * msPerMinute \<le> ts ! Suc i)
             \<and> int (length ts) * (nagIntervalMinutes msg * msPerMinute) < msPerDay
             \<and> int (length ts) \<le> (24 * 60) div nagIntervalMinutes msg)"
proof -
  let ?iv = "nagIntervalMinutes msg * msPerMinute"
  let ?first = "adjustForQuietHours (now + ?iv) s"
  have forward: "t \<le> adjustForQuietHours t s" for t
    using assms(2,3) by (rule adjust_not_backward)
  have iv: "0 < ?iv" using assms(1) by (rule intervalMs_positive)
  obtain ts where plan: "isNagPlan ?first (now + msPerDay) ?iv s ts"
    using isNagPlan_exists [OF iv assms(2,3)] by blast
  have ret: "planNagTimes msg s now = Some ts"
    using plan by (rule planNagTimes_isNagPlan)
  have steps: "\<forall>i. Suc i < length ts \<longrightarrow> ts ! i + ?iv \<le> ts ! Suc i"
    using isNagPlan_chain [OF plan] forward by simp
  have len: "int (length ts) * ?iv < msPerDay"
  proof (cases "ts = []")
    case True
    then show ?thesis by (simp add: msPerDay_def)
  next
    case False
    with isNagPlan_length [OF plan assms(2,3)]
    have "?first + int (length ts) * ?iv < now + msPerDay + ?iv" by blast
    moreover have "now + ?iv \<le> ?first" by (rule forward)
    ultimately show ?thesis by linarith
  qed
  have "int (length ts) * nagIntervalMinutes msg * 60000 < 1440 * 60000"
    using len by (simp add: msPerMinute_def msPerDay_def algebra_simps)
  then have "int (length ts) * nagIntervalMinutes msg \<le> 1440"
    by linarith
  then have "(int (length ts) * nagIntervalMinutes msg) div nagIntervalMinutes msg
      \<le> 1440 div nagIntervalMinutes msg"
    using assms(1) by (intro zdiv_mono1) simp_all
  then have bound: "int (length ts) \<le> (24 * 60) div nagIntervalMinutes msg"
    using assms(1) by simp
  from forward ret steps len bound show ?thesis by blast
qed

theorem planNagTimes_terminates_witness:
  "planNagTimes sampleNag defaultSettings (9 * msPerHour)
     = Some [37800000, 43200000, 48600000, 54000000, 59400000, 64800000, 70200000,
             75600000, 115200000]
   \<and> 9 * (90 * msPerMinute) < msPerDay
   \<and> (9::int) \<le> (24 * 60) div 90
   \<and> (75600000::int) + 90 * msPerMinute \<le> 115200000
   \<and> 23 * msPerHour \<le> adjustForQuietHours (23 * msPerHour) defaultSettings"
proof -
  let ?ts = "[37800000, 43200000, 48600000, 54000000, 59400000, 64800000, 70200000,
             75600000, 115200000] :: int list"
  have h: "1 \<le> nagIntervalMinutes sampleNag" "startHour defaultSettings < endHour defaultSettings"
    "0 \<le> startHour defaultSettings"
    by (simp_all add: sampleNag_def sampleMessage_def defaultSettings_def)
  have v: "nagIntervalMinutes sampleNag = 90"
    by (simp add: sampleNag_def sampleMessage_def)
  have e: "planNagTimes sampleNag defaultSettings (9 * msPerHour) = Some ?ts"
    by code_simp
  note r = planNagTimes_terminates [OF h, of "9 * msPerHour"]
  from r have fwd: "23 * msPerHour \<le> adjustForQuietHours (23 * msPerHour) defaultSettings"
    by blast
  from r e have steps: "\<forall>i. Suc i < length ?ts \<longrightarrow>
                   ?ts ! i + nagIntervalMinutes sampleNag * msPerMinute \<le> ?ts ! Suc i"
    and len: "int (length ?ts) * (nagIntervalMinutes sampleNag * msPerMinute) < msPerDay"
    and bound: "int (length ?ts) \<le> (24 * 60) div nagIntervalMinutes sampleNag"
    by auto
  from steps have "Suc 7 < length ?ts \<longrightarrow>
                   ?ts ! 7 + nagIntervalMinutes sampleNag * msPerMinute \<le> ?ts ! Suc 7"
    by blast
  then have s7: "(75600000::int) + 90 * msPerMinute \<le> 115200000"
    unfolding v by simp
  from len have l: "9 * (90 * msPerMinute) < msPerDay" unfolding v by simp
  from bound have b: "(9::int) \<le> (24 * 60) div 90" unfolding v by simp
  show ?thesis using e l b s7 fwd by blast
qed

section \<open>Cancelling by kind\<close>

lemma cancel_by_prefix:
  "filter (\<lambda>n. case nid n of None \<Rightarrow> True
              | Some i \<Rightarrow> i \<notin> set (map (\<lambda>n. the (nid n)) (filter (idStartsWith p) xs))) xs
     = filter (\<lambda>n. \<not> idStartsWith p n) xs"
proof (rule filter_cong [OF refl])
  fix n assume n: "n \<in> set xs"
  show "(case nid n of None \<Rightarrow> True
          | Some i \<Rightarrow> i \<notin> set (map (\<lambda>n. the (nid n)) (filter (idStartsWith p) xs)))
        = (\<not> idStartsWith p n)"
  proof (cases "nid n")
    case None
    then show ?thesis by (simp add: idStartsWith_def)
  next
    case (Some i)
    show ?thesis
    proof (cases "startsWith i p")
      case True
      with Some n have "n \<in> set (filter (idStartsWith p) xs)"
        by (simp add: idStartsWith_def)
      then have "the (nid n) \<in> set (map (\<lambda>n. the (nid n)) (filter (idStartsWith p) xs))"
        by (auto simp: image_iff)
      with Some True show ?thesis by (simp add: idStartsWith_def)
    next
      case False
      have "i \<notin> set (map (\<lambda>n. the (nid n)) (filter (idStartsWith p) xs))"
      proof
        assume "i \<in> set (map (\<lambda>n. the (nid n)) (filter (idStartsWith p) xs))"
        then obtain m where "m \<in> set xs" "idStartsWith p m" "i = the (nid m)"
          by auto
        then have "startsWith i p"
          by (auto simp: idStartsWith_def split: option.splits)
        with False show False by simp
      qed
      with Some False show ?thesis by (simp add: idStartsWith_def)
    qed
  qed
qed

lemma pending_cancelAllWisdom:
  "pending (cancelAllWisdomNotifications w) = filter (\<lambda>n. \<not> idStartsWith ''wisdom-'' n) (pending w)"
  by (simp add: cancelAllWisdomNotifications_def cancelTriggerNotifications_def Let_def
      cancel_by_prefix)

lemma pending_cancelAllNag:
  "pending (cancelAllNagNotifications w) = filter (\<lambda>n. \<not> idStartsWith ''nag-'' n) (pending w)"
  by (simp add: cancelAllNagNotifications_def cancelTriggerNotifications_def Let_def
      cancel_by_prefix)

lemma calls_cancelAllWisdom:
  "calls (cancelAllWisdomNotifications w) = calls w @ [GetTriggerNotifications,
     CancelTriggerNotifications (map (\<lambda>n. the (nid n)) (filter (idStartsWith ''wisdom-'') (pending w)))]"
  by (simp add: cancelAllWisdomNotifications_def cancelTriggerNotifications_def Let_def)

lemma calls_cancelAllNag:
  "calls (cancelAllNagNotifications w) = calls w @ [GetTriggerNotifications,
     CancelTriggerNotifications (map (\<lambda>n. the (nid n)) (filter (idStartsWith ''nag-'') (pending w)))]"
  by (simp add: cancelAllNagNotifications_def cancelTriggerNotifications_def Let_def)

lemma others_cancelAllWisdom:
  "storedMessages (cancelAllWisdomNotifications w) = storedMessages w"
  "storedSettings (cancelAllWisdomNotifications w) = storedSettings w"
  "lastNotificationTime (cancelAllWisdomNotifications w) = lastNotificationTime w"
  "rejects (cancelAllWisdomNotifications w) = rejects w"
  "draws (cancelAllWisdomNotifications w) = draws w"
  "drawn (cancelAllWisdomNotifications w) = drawn w"
  by (simp_all add: cancelAllWisdomNotifications_def cancelTriggerNotifications_def Let_def)

lemma others_cancelAllNag:
  "storedMessages (cancelAllNagNotifications w) = storedMessages w"
  "storedSettings (cancelAllNagNotifications w) = storedSettings w"
  "lastNotificationTime (cancelAllNagNotifications w) = lastNotificationTime w"
  "rejects (cancelAllNagNotifications w) = rejects w"
  "draws (cancelAllNagNotifications w) = draws w"
  "drawn (cancelAllNagNotifications w) = drawn w"
  by (simp_all add: cancelAllNagNotifications_def cancelTriggerNotifications_def Let_def)

lemma createdIds_append: "createdIds (xs @ ys) = createdIds xs @ createdIds ys"
  by (induction xs rule: createdIds.induct) simp_all

text \<open>
  Claim C8. With \<open>notificationsEnabled\<close> false the wisdom pass resolves after three calls:
  it reads the settings, lists the pending entries and cancels those whose id starts with
  \<open>wisdom-\<close>. Exactly the other entries stay pending; nothing is registered, the messages are
  not read and no random number is drawn.
\<close>

theorem scheduleWisdomNotifications_disabled:
  assumes "\<not> notificationsEnabled (storedSettings w)"
  shows "fst (scheduleWisdomNotifications now w) = Resolved
       \<and> pending (snd (scheduleWisdomNotifications now w))
           = filter (\<lambda>n. \<not> idStartsWith ''wisdom-'' n) (pending w)
       \<and> calls (snd (scheduleWisdomNotifications now w))
           = calls w @ [GetSettings, GetTriggerNotifications,
               CancelTriggerNotifications
                 (map (\<lambda>n. the (nid n)) (filter (idStartsWith ''wisdom-'') (pending w)))]
       \<and> createdIds (calls (snd (scheduleWisdomNotifications now w))) = createdIds (calls w)
       \<and> drawn (snd (scheduleWisdomNotifications now w)) = drawn w
       \<and> storedMessages (snd (scheduleWisdomNotifications now w)) = storedMessages w
       \<and> lastNotificationTime (snd (scheduleWisdomNotifications now w)) = lastNotificationTime w"
proof -
  let ?w1 = "w\<lparr>calls := calls w @ [GetSettings]\<rparr>"
  have run: "scheduleWisdomNotifications now w = (Resolved, cancelAllWisdomNotifications ?w1)"
    using assms by (simp add: scheduleWisdomNotifications_def Let_def)
  show ?thesis
    unfolding run
    by (simp add: pending_cancelAllWisdom calls_cancelAllWisdom others_cancelAllWisdom
        createdIds_append)
qed

theorem scheduleWisdomNotifications_disabled_witness:
  "\<not> notificationsEnabled (storedSettings
        (sampleWorld\<lparr>storedSettings := defaultSettings\<lparr>notificationsEnabled := False\<rparr>\<rparr>))
   \<and> fst (scheduleWisdomNotifications (9 * msPerHour)
        (sampleWorld\<lparr>storedSettings := defaultSettings\<lparr>notificationsEnabled := False\<rparr>\<rparr>)) = Resolved
   \<and> map nid (pending (snd (scheduleWisdomNotifications (9 * msPerHour)
        (sampleWorld\<lparr>storedSettings := defaultSettings\<lparr>notificationsEnabled := False\<rparr>\<rparr>))))
       = [Some ''nag-n-2'', None]
   \<and> calls (snd (scheduleWisdomNotifications (9 * msPerHour)
        (sampleWorld\<lparr>storedSettings := defaultSettings\<lparr>notificationsEnabled := False\<rparr>\<rparr>)))
       = [GetSettings, GetTriggerNotifications, CancelTriggerNotifications [''wisdom-1'']]
   \<and> drawn (snd (scheduleWisdomNotifications (9 * msPerHour)
        (sampleWorld\<lparr>storedSettings := defaultSettings\<lparr>notificationsEnabled := False\<rparr>\<rparr>))) = 0"
proof -
  let ?w = "sampleWorld\<lparr>storedSettings := defaultSettings\<lparr>notificationsEnabled := False\<rparr>\<rparr>"
  have h: "\<not> notificationsEnabled (storedSettings ?w)"
    by simp
  have p: "pending ?w = pending sampleWorld" "calls ?w = []" "drawn ?w = 0"
    by (simp_all add: sampleWorld_def)
  have f: "filter (\<lambda>n. \<not> idStartsWith ''wisdom-'' n) (pending sampleWorld)
      = [\<lparr>nid = Some ''nag-n-2'', body = ''y'', channelId = ''notetoself-nag'', timestamp = 2\<rparr>,
         \<lparr>nid = None, body = ''z'', channelId = ''other'', timestamp = 3\<rparr>]"
    "map (\<lambda>n. the (nid n)) (filter (idStartsWith ''wisdom-'') (pending sampleWorld)) = [''wisdom-1'']"
    by (simp_all add: sampleWorld_def idStartsWith_def startsWith_def)
  show ?thesis
    using h scheduleWisdomNotifications_disabled [OF h, of "9 * msPerHour"]
    by (simp add: p f)
qed

section \<open>What a pass leaves alone\<close>

lemma startsWith_append: "startsWith (p @ rest) p"
  by (simp add: startsWith_def)

lemma nag_not_wisdom: "startsWith i ''nag-'' \<Longrightarrow> \<not> startsWith i ''wisdom-''"
  by (cases i) (auto simp: startsWith_def)

lemma idStartsWith_nag_not_wisdom: "idStartsWith ''nag-'' n \<Longrightarrow> \<not> idStartsWith ''wisdom-'' n"
  using nag_not_wisdom by (auto simp: idStartsWith_def split: option.splits)

lemma filter_other_kind:
  assumes "\<And>n. Q n \<Longrightarrow> \<not> P n"
    and "filter (\<lambda>n. \<not> P n) xs = filter (\<lambda>n. \<not> P n) ys"
  shows "filter Q xs = filter Q ys"
proof -
  have "filter Q zs = filter Q (filter (\<lambda>n. \<not> P n) zs)" for zs
    using assms(1) by (auto intro: filter_cong)
  then show ?thesis using assms(2) by metis
qed

lemma keepsOthers_refl: "keepsOthers p w w"
  by (simp add: keepsOthers_def)

lemma keepsOthers_trans: "keepsOthers p w w1 \<Longrightarrow> keepsOthers p w1 w2 \<Longrightarrow> keepsOthers p w w2"
  by (auto simp: keepsOthers_def)

lemma keepsOthers_same:
  assumes "pending w' = pending w" "createdIds (calls w') = createdIds (calls w)"
  shows "keepsOthers p w w'"
  using assms by (simp add: keepsOthers_def)

lemma keepsOthers_create:
  assumes "startsWith i p"
  shows "keepsOthers p w (snd (createTriggerNotification i b c t w))"
proof -
  have "filter (\<lambda>n. \<not> idStartsWith p n) (filter (\<lambda>n. nid n \<noteq> Some i) (pending w))
      = filter (\<lambda>n. \<not> idStartsWith p n) (pending w)"
    unfolding filter_filter using assms
    by (intro filter_cong) (auto simp: idStartsWith_def)
  with assms show ?thesis
    by (simp add: keepsOthers_def createTriggerNotification_def Let_def createdIds_append
        idStartsWith_def)
qed

lemma keepsOthers_select: "keepsOthers p w (snd (selectNextMessageIO now w))"
  by (rule keepsOthers_same) (simp_all add: selectNextMessageIO_def Let_def createdIds_append)

lemma keepsOthers_update: "keepsOthers p w (updateMessage i t w)"
  by (rule keepsOthers_same) (simp_all add: updateMessage_def createdIds_append)

lemma keepsOthers_cancelAllWisdom: "keepsOthers ''wisdom-'' w (cancelAllWisdomNotifications w)"
  by (simp add: keepsOthers_def pending_cancelAllWisdom calls_cancelAllWisdom createdIds_append)

lemma keepsOthers_cancelAllNag: "keepsOthers ''nag-'' w (cancelAllNagNotifications w)"
  by (simp add: keepsOthers_def pending_cancelAllNag calls_cancelAllNag createdIds_append)

lemma keepsOthers_wisdomLoop: "keepsOthers ''wisdom-'' w (snd (wisdomLoop ts now w))"
proof (induction ts arbitrary: w)
  case Nil
  show ?case by (simp add: keepsOthers_refl)
next
  case (Cons time rest)
  obtain m w1 where sel: "selectNextMessageIO now w = (m, w1)"
    by (cases "selectNextMessageIO now w")
  have k1: "keepsOthers ''wisdom-'' w w1"
    using keepsOthers_select [of "''wisdom-''" w now] sel by simp
  show ?case
  proof (cases m)
    case None
    with sel k1 Cons.IH [of w1] show ?thesis
      by (auto intro: keepsOthers_trans)
  next
    case (Some msg)
    obtain r w2 where cr: "createTriggerNotification (''wisdom-'' @ showInt time) (msgText msg)
        ''notetoself-wisdom'' time w1 = (r, w2)"
      by (cases "createTriggerNotification (''wisdom-'' @ showInt time) (msgText msg)
        ''notetoself-wisdom'' time w1")
    have "keepsOthers ''wisdom-'' w1 (snd (createTriggerNotification (''wisdom-'' @ showInt time)
        (msgText msg) ''notetoself-wisdom'' time w1))"
      by (rule keepsOthers_create) (rule startsWith_append)
    then have k2: "keepsOthers ''wisdom-'' w1 w2"
      using cr by simp
    show ?thesis
    proof (cases r)
      case Resolved
      have "keepsOthers ''wisdom-'' w2 (updateMessage (msgId msg) time w2)"
        by (rule keepsOthers_update)
      with k1 k2 Cons.IH [of "updateMessage (msgId msg) time w2"]
      have "keepsOthers ''wisdom-'' w (snd (wisdomLoop rest now (updateMessage (msgId msg) time w2)))"
        by (blast intro: keepsOthers_trans)
      with sel Some cr Resolved show ?thesis by simp
    next
      case (Rejected e)
      with sel Some cr k1 k2 show ?thesis
        by (auto intro: keepsOthers_trans)
    qed
  qed
qed

lemma keepsOthers_wisdom_pass:
  "keepsOthers ''wisdom-'' w (snd (scheduleWisdomNotifications now w))"
proof -
  let ?w1 = "w\<lparr>calls := calls w @ [GetSettings]\<rparr>"
  let ?w2 = "cancelAllWisdomNotifications ?w1"
  have k1: "keepsOthers ''wisdom-'' w ?w1"
    by (rule keepsOthers_same) (simp_all add: createdIds_append)
  have k2: "keepsOthers ''wisdom-'' w ?w2"
    using k1 keepsOthers_cancelAllWisdom by (rule keepsOthers_trans)
  show ?thesis
  proof (cases "notificationsEnabled (storedSettings w)")
    case False
    with k2 show ?thesis
      by (simp add: scheduleWisdomNotifications_def Let_def)
  next
    case True
    obtain ts k1' where calc: "calculateNotificationTimes (storedSettings w) now (draws ?w2) (drawn ?w2)
        = (ts, k1')"
      by (cases "calculateNotificationTimes (storedSettings w) now (draws ?w2) (drawn ?w2)")
    let ?w3 = "?w2\<lparr>drawn := k1'\<rparr>"
    have k3: "keepsOthers ''wisdom-'' w ?w3"
      by (rule keepsOthers_trans [OF k2]) (rule keepsOthers_same, simp_all)
    obtain r w4 where loop: "wisdomLoop ts now ?w3 = (r, w4)"
      by (cases "wisdomLoop ts now ?w3")
    have k4: "keepsOthers ''wisdom-'' w w4"
      using keepsOthers_trans [OF k3 keepsOthers_wisdomLoop [of ?w3 ts now]] loop by simp
    have k5: "keepsOthers ''wisdom-'' w
        (w4\<lparr>lastNotificationTime := Some now, calls := calls w4 @ [SaveState]\<rparr>)"
      by (rule keepsOthers_trans [OF k4]) (rule keepsOthers_same, simp_all add: createdIds_append)
    show ?thesis
    proof (cases r)
      case Resolved
      with True calc loop k5 show ?thesis
        by (simp add: scheduleWisdomNotifications_def Let_def)
    next
      case (Rejected e)
      with True calc loop k4 show ?thesis
        by (simp add: scheduleWisdomNotifications_def Let_def)
    qed
  qed
qed

lemma keepsOthers_nagRegisterLoop: "keepsOthers ''nag-'' w (snd (nagRegisterLoop msg ts w))"
proof (induction ts arbitrary: w)
  case Nil
  show ?case by (simp add: keepsOthers_refl)
next
  case (Cons time rest)
  obtain r w1 where cr: "createTriggerNotification (''nag-'' @ msgId msg @ ''-'' @ showInt time)
      (msgText msg) ''notetoself-nag'' time w = (r, w1)"
    by (cases "createTriggerNotification (''nag-'' @ msgId msg @ ''-'' @ showInt time)
      (msgText msg) ''notetoself-nag'' time w")
  have "keepsOthers ''nag-'' w (snd (createTriggerNotification
      (''nag-'' @ msgId msg @ ''-'' @ showInt time) (msgText msg) ''notetoself-nag'' time w))"
    by (rule keepsOthers_create) (rule startsWith_append)
  then have k1: "keepsOthers ''nag-'' w w1"
    using cr by simp
  show ?case
  proof (cases r)
    case Resolved
    with cr k1 Cons.IH [of w1] show ?thesis
      by (auto intro: keepsOthers_trans)
  next
    case (Rejected e)
    with cr k1 show ?thesis by simp
  qed
qed

lemma keepsOthers_nagMessagesLoop:
  "nagMessagesLoop msgs s now w = Some res \<Longrightarrow> keepsOthers ''nag-'' w (snd res)"
proof (induction msgs arbitrary: w)
  case Nil
  then show ?case by (auto simp: keepsOthers_refl)
next
  case (Cons msg rest)
  from Cons.prems obtain ts where plan: "planNagTimes msg s now = Some ts"
    by (auto simp: scheduleRepeatingNag_def split: option.splits)
  obtain r w1 where reg: "nagRegisterLoop msg ts w = (r, w1)"
    by (cases "nagRegisterLoop msg ts w")
  have k1: "keepsOthers ''nag-'' w w1"
    using keepsOthers_nagRegisterLoop [of w msg ts] reg by simp
  show ?case
  proof (cases r)
    case Resolved
    with Cons.prems plan reg have "nagMessagesLoop rest s now w1 = Some res"
      by (simp add: scheduleRepeatingNag_def)
    then have "keepsOthers ''nag-'' w1 (snd res)" by (rule Cons.IH)
    with k1 show ?thesis by (rule keepsOthers_trans)
  next
    case (Rejected e)
    with Cons.prems plan reg have "res = (Rejected e, w1)"
      by (simp add: scheduleRepeatingNag_def)
    with k1 show ?thesis by simp
  qed
qed

lemma keepsOthers_nag_pass:
  assumes "scheduleNagNotifications now w = Some res"
  shows "keepsOthers ''nag-'' w (snd res)"
proof -
  let ?w2 = "w\<lparr>calls := calls w @ [GetMessages, GetSettings]\<rparr>"
  have "keepsOthers ''nag-'' w ?w2"
    by (rule keepsOthers_same) (simp_all add: createdIds_append)
  then have k: "keepsOthers ''nag-'' w (cancelAllNagNotifications ?w2)"
    using keepsOthers_cancelAllNag by (rule keepsOthers_trans)
  from assms have "nagMessagesLoop (filter (\<lambda>m. isNagMe m) (storedMessages w)) (storedSettings w)
      now (cancelAllNagNotifications ?w2) = Some res"
    by (simp add: scheduleNagNotifications_def Let_def)
  then have "keepsOthers ''nag-'' (cancelAllNagNotifications ?w2) (snd res)"
    by (rule keepsOthers_nagMessagesLoop)
  with k show ?thesis by (rule keepsOthers_trans)
qed

lemma nagMessagesLoop_returns:
  assumes "startHour s < endHour s" "0 \<le> startHour s"
    and "\<forall>m\<in>set msgs. 1 \<le> nagIntervalMinutes m"
  shows "nagMessagesLoop msgs s now w \<noteq> None"
  using assms(3)
proof (induction msgs arbitrary: w)
  case Nil
  show ?case by simp
next
  case (Cons msg rest)
  then have "0 < nagIntervalMinutes msg * msPerMinute"
    by (simp add: intervalMs_positive)
  from isNagPlan_exists [OF this assms(1,2)] obtain ts
    where "isNagPlan (adjustForQuietHours (now + nagIntervalMinutes msg * msPerMinute) s)
             (now + msPerDay) (nagIntervalMinutes msg * msPerMinute) s ts"
    by blast
  then have plan: "planNagTimes msg s now = Some ts"
    by (rule planNagTimes_isNagPlan)
  obtain r w1 where reg: "nagRegisterLoop msg ts w = (r, w1)"
    by (cases "nagRegisterLoop msg ts w")
  from Cons have "nagMessagesLoop rest s now w1 \<noteq> None" by simp
  with plan reg show ?case
    by (cases r) (simp_all add: scheduleRepeatingNag_def)
qed

text \<open>
  Claim C10. The passes leave each other's entries alone. Every id the wisdom pass registers
  starts with \<open>wisdom-\<close> and the pass leaves the pending entries whose id starts with \<open>nag-\<close> as
  they were; every id the nag pass registers starts with \<open>nag-\<close> and the pass leaves the
  entries whose id starts with \<open>wisdom-\<close> as they were. \<open>cancelAllWisdomNotifications\<close> removes
  exactly the pending entries whose id starts with \<open>wisdom-\<close>, \<open>cancelAllNagNotifications\<close>
  exactly those whose id starts with \<open>nag-\<close>. With settings and intervals in their ranges
  the nag pass does return.
\<close>

theorem passes_leave_each_other_alone:
  "(\<forall>i\<in>set (createdIds (calls (snd (scheduleWisdomNotifications now w)))).
       i \<in> set (createdIds (calls w)) \<or> startsWith i ''wisdom-'')
   \<and> filter (idStartsWith ''nag-'') (pending (snd (scheduleWisdomNotifications now w)))
       = filter (idStartsWith ''nag-'') (pending w)
   \<and> (\<forall>res. scheduleNagNotifications now w = Some res \<longrightarrow>
         (\<forall>i\<in>set (createdIds (calls (snd res))).
             i \<in> set (createdIds (calls w)) \<or> startsWith i ''nag-'')
         \<and> filter (idStartsWith ''wisdom-'') (pending (snd res))
             = filter (idStartsWith ''wisdom-'') (pending w))
   \<and> pending (cancelAllWisdomNotifications w)
       = filter (\<lambda>n. \<not> idStartsWith ''wisdom-'' n) (pending w)
   \<and> filter (idStartsWith ''nag-'') (pending (cancelAllWisdomNotifications w))
       = filter (idStartsWith ''nag-'') (pending w)
   \<and> pending (cancelAllNagNotifications w)
       = filter (\<lambda>n. \<not> idStartsWith ''nag-'' n) (pending w)
   \<and> filter (idStartsWith ''wisdom-'') (pending (cancelAllNagNotifications w))
       = filter (idStartsWith ''wisdom-'') (pending w)
   \<and> (startHour (storedSettings w) < endHour (storedSettings w)
       \<and> 0 \<le> startHour (storedSettings w)
       \<and> (\<forall>m\<in>set (storedMessages w). isNagMe m \<longrightarrow> 1 \<le> nagIntervalMinutes m)
       \<longrightarrow> scheduleNagNotifications now w \<noteq> None)"
proof -
  have nw: "idStartsWith ''nag-'' n \<Longrightarrow> \<not> idStartsWith ''wisdom-'' n" for n
    by (rule idStartsWith_nag_not_wisdom)
  have wn: "idStartsWith ''wisdom-'' n \<Longrightarrow> \<not> idStartsWith ''nag-'' n" for n
    using idStartsWith_nag_not_wisdom by blast
  have wis: "keepsOthers ''wisdom-'' w (snd (scheduleWisdomNotifications now w))"
    by (rule keepsOthers_wisdom_pass)
  have c1: "\<forall>i\<in>set (createdIds (calls (snd (scheduleWisdomNotifications now w)))).
       i \<in> set (createdIds (calls w)) \<or> startsWith i ''wisdom-''"
    using wis by (simp add: keepsOthers_def)
  have c2: "filter (idStartsWith ''nag-'') (pending (snd (scheduleWisdomNotifications now w)))
       = filter (idStartsWith ''nag-'') (pending w)"
    by (rule filter_other_kind [where P = "idStartsWith ''wisdom-''", OF nw])
      (use wis in \<open>simp_all add: keepsOthers_def\<close>)
  have c3: "\<forall>res. scheduleNagNotifications now w = Some res \<longrightarrow>
         (\<forall>i\<in>set (createdIds (calls (snd res))).
             i \<in> set (createdIds (calls w)) \<or> startsWith i ''nag-'')
         \<and> filter (idStartsWith ''wisdom-'') (pending (snd res))
             = filter (idStartsWith ''wisdom-'') (pending w)"
  proof (intro allI impI)
    fix res assume "scheduleNagNotifications now w = Some res"
    then have nag: "keepsOthers ''nag-'' w (snd res)" by (rule keepsOthers_nag_pass)
    have "filter (idStartsWith ''wisdom-'') (pending (snd res))
             = filter (idStartsWith ''wisdom-'') (pending w)"
      by (rule filter_other_kind [where P = "idStartsWith ''nag-''", OF wn])
        (use nag in \<open>simp_all add: keepsOthers_def\<close>)
    with nag show "(\<forall>i\<in>set (createdIds (calls (snd res))).
             i \<in> set (createdIds (calls w)) \<or> startsWith i ''nag-'')
         \<and> filter (idStartsWith ''wisdom-'') (pending (snd res))
             = filter (idStartsWith ''wisdom-'') (pending w)"
      by (simp add: keepsOthers_def)
  qed
  have c4: "pending (cancelAllWisdomNotifications w)
       = filter (\<lambda>n. \<not> idStartsWith ''wisdom-'' n) (pending w)"
    by (rule pending_cancelAllWisdom)
  have c5: "filter (idStartsWith ''nag-'') (pending (cancelAllWisdomNotifications w))
       = filter (idStartsWith ''nag-'') (pending w)"
    by (rule filter_other_kind [where P = "idStartsWith ''wisdom-''", OF nw])
      (simp_all add: pending_cancelAllWisdom)
  have c6: "pending (cancelAllNagNotifications w)
       = filter (\<lambda>n. \<not> idStartsWith ''nag-'' n) (pending w)"
    by (rule pending_cancelAllNag)
  have c7: "filter (idStartsWith ''wisdom-'') (pending (cancelAllNagNotifications w))
       = filter (idStartsWith ''wisdom-'') (pending w)"
    by (rule filter_other_kind [where P = "idStartsWith ''nag-''", OF wn])
      (simp_all add: pending_cancelAllNag)
  have c8: "startHour (storedSettings w) < endHour (storedSettings w)
       \<and> 0 \<le> startHour (storedSettings w)
       \<and> (\<forall>m\<in>set (storedMessages w). isNagMe m \<longrightarrow> 1 \<le> nagIntervalMinutes m)
       \<longrightarrow> scheduleNagNotifications now w \<noteq> None"
  proof
    assume h: "startHour (storedSettings w) < endHour (storedSettings w)
       \<and> 0 \<le> startHour (storedSettings w)
       \<and> (\<forall>m\<in>set (storedMessages w). isNagMe m \<longrightarrow> 1 \<le> nagIntervalMinutes m)"
    then have "\<forall>m\<in>set (filter (\<lambda>m. isNagMe m) (storedMessages w)). 1 \<le> nagIntervalMinutes m"
      by simp
    with h have "nagMessagesLoop (filter (\<lambda>m. isNagMe m) (storedMessages w)) (storedSettings w) now
        (cancelAllNagNotifications (w\<lparr>calls := calls w @ [GetMessages, GetSettings]\<rparr>)) \<noteq> None"
      by (intro nagMessagesLoop_returns) simp_all
    then show "scheduleNagNotifications now w \<noteq> None"
      by (simp add: scheduleNagNotifications_def Let_def)
  qed
  show ?thesis
    by (intro conjI c1 c2 c3 c4 c5 c6 c7 c8)
qed

theorem passes_leave_each_other_alone_witness:
  "scheduleNagNotifications (9 * msPerHour) sampleWorld \<noteq> None
   \<and> filter (idStartsWith ''wisdom-'')
         (pending (snd (the (scheduleNagNotifications (9 * msPerHour) sampleWorld))))
       = [\<lparr>nid = Some ''wisdom-1'', body = ''x'', channelId = ''notetoself-wisdom'', timestamp = 1\<rparr>]
   \<and> filter (idStartsWith ''nag-'')
         (pending (snd (scheduleWisdomNotifications (9 * msPerHour) sampleWorld)))
       = [\<lparr>nid = Some ''nag-n-2'', body = ''y'', channelId = ''notetoself-nag'', timestamp = 2\<rparr>]
   \<and> pending (cancelAllWisdomNotifications sampleWorld)
       = [\<lparr>nid = Some ''nag-n-2'', body = ''y'', channelId = ''notetoself-nag'', timestamp = 2\<rparr>,
          \<lparr>nid = None, body = ''z'', channelId = ''other'', timestamp = 3\<rparr>]
   \<and> pending (cancelAllNagNotifications sampleWorld)
       = [\<lparr>nid = Some ''wisdom-1'', body = ''x'', channelId = ''notetoself-wisdom'', timestamp = 1\<rparr>,
          \<lparr>nid = None, body = ''z'', channelId = ''other'', timestamp = 3\<rparr>]"
proof -
  note r = passes_leave_each_other_alone [of "9 * msPerHour" sampleWorld]
  have h: "startHour (storedSettings sampleWorld) < endHour (storedSettings sampleWorld)
       \<and> 0 \<le> startHour (storedSettings sampleWorld)
       \<and> (\<forall>m\<in>set (storedMessages sampleWorld). isNagMe m \<longrightarrow> 1 \<le> nagIntervalMinutes m)"
    by (simp add: sampleWorld_def defaultSettings_def sampleNag_def sampleMessage_def)
  have p: "filter (idStartsWith ''wisdom-'') (pending sampleWorld)
       = [\<lparr>nid = Some ''wisdom-1'', body = ''x'', channelId = ''notetoself-wisdom'', timestamp = 1\<rparr>]"
    "filter (idStartsWith ''nag-'') (pending sampleWorld)
       = [\<lparr>nid = Some ''nag-n-2'', body = ''y'', channelId = ''notetoself-nag'', timestamp = 2\<rparr>]"
    "filter (\<lambda>n. \<not> idStartsWith ''wisdom-'' n) (pending sampleWorld)
       = [\<lparr>nid = Some ''nag-n-2'', body = ''y'', channelId = ''notetoself-nag'', timestamp = 2\<rparr>,
          \<lparr>nid = None, body = ''z'', channelId = ''other'', timestamp = 3\<rparr>]"
    "filter (\<lambda>n. \<not> idStartsWith ''nag-'' n) (pending sampleWorld)
       = [\<lparr>nid = Some ''wisdom-1'', body = ''x'', channelId = ''notetoself-wisdom'', timestamp = 1\<rparr>,
          \<lparr>nid = None, body = ''z'', channelId = ''other'', timestamp = 3\<rparr>]"
    by (simp_all add: sampleWorld_def idStartsWith_def startsWith_def)
  from r h have ret: "scheduleNagNotifications (9 * msPerHour) sampleWorld \<noteq> None"
    by blast
  then obtain res where res: "scheduleNagNotifications (9 * msPerHour) sampleWorld = Some res"
    by blast
  from r res have "filter (idStartsWith ''wisdom-'') (pending (snd res))
             = filter (idStartsWith ''wisdom-'') (pending sampleWorld)"
    by blast
  with res have keepW: "filter (idStartsWith ''wisdom-'')
         (pending (snd (the (scheduleNagNotifications (9 * msPerHour) sampleWorld))))
       = filter (idStartsWith ''wisdom-'') (pending sampleWorld)"
    by simp
  from r have keepN: "filter (idStartsWith ''nag-'')
         (pending (snd (scheduleWisdomNotifications (9 * msPerHour) sampleWorld)))
       = filter (idStartsWith ''nag-'') (pending sampleWorld)"
    by blast
  from r have cw: "pending (cancelAllWisdomNotifications sampleWorld)
       = filter (\<lambda>n. \<not> idStartsWith ''wisdom-'' n) (pending sampleWorld)"
    and cn: "pending (cancelAllNagNotifications sampleWorld)
       = filter (\<lambda>n. \<not> idStartsWith ''nag-'' n) (pending sampleWorld)"
    by blast+
  from ret keepW keepN cw cn show ?thesis
    unfolding p by simp
qed

section \<open>A refused registration\<close>

lemma stopsAtFailure_quiet:
  assumes "rejects w' = rejects w" "calls w' = calls w @ evs" "createdIds evs = []"
  shows "stopsAtFailure w Resolved w'"
  using assms by (simp add: stopsAtFailure_def cleanCalls_def)

lemma stopsAtFailure_refl: "stopsAtFailure w Resolved w"
  by (rule stopsAtFailure_quiet [where evs = "[]"]) simp_all

lemma stopsAtFailure_seq:
  assumes "stopsAtFailure w Resolved w1" "stopsAtFailure w1 r w2"
  shows "stopsAtFailure w r w2"
proof -
  from assms(1) obtain a where a: "rejects w1 = rejects w" "calls w1 = calls w @ a" "cleanCalls w a"
    by (auto simp: stopsAtFailure_def)
  from assms(2) obtain new where new: "rejects w2 = rejects w1" "calls w2 = calls w1 @ new"
    and r: "case r of Resolved \<Rightarrow> cleanCalls w1 new
            | Rejected e \<Rightarrow> rejects w1 e
                \<and> (\<exists>pre. new = pre @ [CreateTriggerNotification e] \<and> cleanCalls w1 pre)"
    by (auto simp: stopsAtFailure_def)
  have same: "cleanCalls w1 evs = cleanCalls w evs" for evs
    using a(1) by (simp add: cleanCalls_def)
  have join: "cleanCalls w evs \<Longrightarrow> cleanCalls w (a @ evs)" for evs
    using a(3) by (auto simp: cleanCalls_def createdIds_append)
  have calls: "calls w2 = calls w @ (a @ new)"
    using a new by simp
  show ?thesis
  proof (cases r)
    case Resolved
    with r same join have "cleanCalls w (a @ new)" by simp
    with Resolved calls a new show ?thesis
      unfolding stopsAtFailure_def by (intro conjI exI [where x = "a @ new"]) simp_all
  next
    case (Rejected e)
    with r same obtain pre where pre: "rejects w e" "new = pre @ [CreateTriggerNotification e]"
      "cleanCalls w pre"
      using a(1) by auto
    then have "a @ new = (a @ pre) @ [CreateTriggerNotification e]" "cleanCalls w (a @ pre)"
      using join by simp_all
    with Rejected calls a new pre(1) show ?thesis
      unfolding stopsAtFailure_def
      by (intro conjI exI [where x = "a @ new"]) auto
  qed
qed

lemma stopsAtFailure_create:
  assumes "createTriggerNotification i b c t w = (r, w')"
  shows "stopsAtFailure w r w'"
proof (cases "rejects w i")
  case True
  with assms have "r = Rejected i" "rejects w' = rejects w"
    "calls w' = calls w @ ([] @ [CreateTriggerNotification i])"
    by (auto simp: createTriggerNotification_def Let_def)
  with True show ?thesis
    unfolding stopsAtFailure_def
    by (intro conjI exI [where x = "[] @ [CreateTriggerNotification i]"])
      (auto simp: cleanCalls_def)
next
  case False
  with assms have "r = Resolved" "rejects w' = rejects w"
    "calls w' = calls w @ [CreateTriggerNotification i]"
    by (auto simp: createTriggerNotification_def Let_def)
  with False show ?thesis
    unfolding stopsAtFailure_def
    by (intro conjI exI [where x = "[CreateTriggerNotification i]"]) (simp_all add: cleanCalls_def)
qed

lemma stopsAtFailure_select:
  "stopsAtFailure w Resolved (snd (selectNextMessageIO now w))"
  by (rule stopsAtFailure_quiet [where evs = "[GetMessages]"])
    (simp_all add: selectNextMessageIO_def Let_def)

lemma stopsAtFailure_update: "stopsAtFailure w Resolved (updateMessage i t w)"
  by (rule stopsAtFailure_quiet [where evs = "[UpdateMessage i]"])
    (simp_all add: updateMessage_def)

lemma stopsAtFailure_cancelAllWisdom: "stopsAtFailure w Resolved (cancelAllWisdomNotifications w)"
  by (rule stopsAtFailure_quiet [where evs = "[GetTriggerNotifications,
     CancelTriggerNotifications (map (\<lambda>n. the (nid n)) (filter (idStartsWith ''wisdom-'') (pending w)))]"])
    (simp_all add: calls_cancelAllWisdom others_cancelAllWisdom)

lemma stopsAtFailure_cancelAllNag: "stopsAtFailure w Resolved (cancelAllNagNotifications w)"
  by (rule stopsAtFailure_quiet [where evs = "[GetTriggerNotifications,
     CancelTriggerNotifications (map (\<lambda>n. the (nid n)) (filter (idStartsWith ''nag-'') (pending w)))]"])
    (simp_all add: calls_cancelAllNag others_cancelAllNag)

lemma stopsAtFailure_wisdomLoop:
  "wisdomLoop ts now w = (r, w') \<Longrightarrow> stopsAtFailure w r w'"
proof (induction ts arbitrary: w)
  case Nil
  then show ?case by (auto simp: stopsAtFailure_refl)
next
  case (Cons time rest)
  obtain m w1 where sel: "selectNextMessageIO now w = (m, w1)"
    by (cases "selectNextMessageIO now w")
  have s1: "stopsAtFailure w Resolved w1"
    using stopsAtFailure_select [of w now] sel by simp
  show ?case
  proof (cases m)
    case None
    with Cons.prems sel have "wisdomLoop rest now w1 = (r, w')" by simp
    then have "stopsAtFailure w1 r w'" by (rule Cons.IH)
    with s1 show ?thesis by (rule stopsAtFailure_seq)
  next
    case (Some msg)
    obtain r2 w2 where cr: "createTriggerNotification (''wisdom-'' @ showInt time) (msgText msg)
        ''notetoself-wisdom'' time w1 = (r2, w2)"
      by (cases "createTriggerNotification (''wisdom-'' @ showInt time) (msgText msg)
        ''notetoself-wisdom'' time w1")
    have s2: "stopsAtFailure w1 r2 w2"
      using cr by (rule stopsAtFailure_create)
    show ?thesis
    proof (cases r2)
      case Resolved
      with Cons.prems sel Some cr
      have "wisdomLoop rest now (updateMessage (msgId msg) time w2) = (r, w')" by simp
      then have "stopsAtFailure (updateMessage (msgId msg) time w2) r w'" by (rule Cons.IH)
      then have "stopsAtFailure w2 r w'"
        using stopsAtFailure_update stopsAtFailure_seq by blast
      with s2 Resolved have "stopsAtFailure w1 r w'"
        using stopsAtFailure_seq by blast
      with s1 show ?thesis by (rule stopsAtFailure_seq)
    next
      case (Rejected e)
      with Cons.prems sel Some cr have "r = Rejected e" "w' = w2" by simp_all
      with s2 Rejected have "stopsAtFailure w1 r w'" by simp
      with s1 show ?thesis by (rule stopsAtFailure_seq)
    qed
  qed
qed

lemma stopsAtFailure_wisdom_pass:
  assumes "scheduleWisdomNotifications now w = (r, w')"
  shows "stopsAtFailure w r w'"
proof -
  let ?w1 = "w\<lparr>calls := calls w @ [GetSettings]\<rparr>"
  let ?w2 = "cancelAllWisdomNotifications ?w1"
  have s1: "stopsAtFailure w Resolved ?w1"
    by (rule stopsAtFailure_quiet [where evs = "[GetSettings]"]) simp_all
  have s2: "stopsAtFailure w Resolved ?w2"
    using s1 stopsAtFailure_cancelAllWisdom by (rule stopsAtFailure_seq)
  show ?thesis
  proof (cases "notificationsEnabled (storedSettings w)")
    case False
    with assms have "r = Resolved" "w' = ?w2"
      by (simp_all add: scheduleWisdomNotifications_def Let_def)
    with s2 show ?thesis by simp
  next
    case True
    obtain ts k1 where calc: "calculateNotificationTimes (storedSettings w) now (draws ?w2) (drawn ?w2)
        = (ts, k1)"
      by (cases "calculateNotificationTimes (storedSettings w) now (draws ?w2) (drawn ?w2)")
    let ?w3 = "?w2\<lparr>drawn := k1\<rparr>"
    have "stopsAtFailure ?w2 Resolved ?w3"
      by (rule stopsAtFailure_quiet [where evs = "[]"]) simp_all
    with s2 have s3: "stopsAtFailure w Resolved ?w3" by (rule stopsAtFailure_seq)
    obtain r4 w4 where loop: "wisdomLoop ts now ?w3 = (r4, w4)"
      by (cases "wisdomLoop ts now ?w3")
    then have "stopsAtFailure ?w3 r4 w4" by (rule stopsAtFailure_wisdomLoop)
    with s3 have s4: "stopsAtFailure w r4 w4" by (rule stopsAtFailure_seq)
    show ?thesis
    proof (cases r4)
      case Resolved
      let ?w5 = "w4\<lparr>lastNotificationTime := Some now, calls := calls w4 @ [SaveState]\<rparr>"
      have "stopsAtFailure w4 Resolved ?w5"
        by (rule stopsAtFailure_quiet [where evs = "[SaveState]"]) simp_all
      with s4 Resolved have "stopsAtFailure w Resolved ?w5"
        using stopsAtFailure_seq by blast
      moreover from assms True calc loop Resolved have "r = Resolved" "w' = ?w5"
        by (simp_all add: scheduleWisdomNotifications_def Let_def)
      ultimately show ?thesis by simp
    next
      case (Rejected e)
      with assms True calc loop have "r = Rejected e" "w' = w4"
        by (simp_all add: scheduleWisdomNotifications_def Let_def)
      with s4 Rejected show ?thesis by simp
    qed
  qed
qed

lemma stopsAtFailure_nagRegisterLoop:
  "nagRegisterLoop msg ts w = (r, w') \<Longrightarrow> stopsAtFailure w r w'"
proof (induction ts arbitrary: w)
  case Nil
  then show ?case by (auto simp: stopsAtFailure_refl)
next
  case (Cons time rest)
  obtain r1 w1 where cr: "createTriggerNotification (''nag-'' @ msgId msg @ ''-'' @ showInt time)
      (msgText msg) ''notetoself-nag'' time w = (r1, w1)"
    by (cases "createTriggerNotification (''nag-'' @ msgId msg @ ''-'' @ showInt time)
      (msgText msg) ''notetoself-nag'' time w")
  have s1: "stopsAtFailure w r1 w1"
    using cr by (rule stopsAtFailure_create)
  show ?case
  proof (cases r1)
    case Resolved
    with Cons.prems cr have "nagRegisterLoop msg rest w1 = (r, w')" by simp
    then have "stopsAtFailure w1 r w'" by (rule Cons.IH)
    with s1 Resolved show ?thesis using stopsAtFailure_seq by blast
  next
    case (Rejected e)
    with Cons.prems cr have "r = Rejected e" "w' = w1" by simp_all
    with s1 Rejected show ?thesis by simp
  qed
qed

lemma stopsAtFailure_nagMessagesLoop:
  "nagMessagesLoop msgs s now w = Some (r, w') \<Longrightarrow> stopsAtFailure w r w'"
proof (induction msgs arbitrary: w)
  case Nil
  then show ?case by (auto simp: stopsAtFailure_refl)
next
  case (Cons msg rest)
  from Cons.prems obtain ts where plan: "planNagTimes msg s now = Some ts"
    by (auto simp: scheduleRepeatingNag_def split: option.splits)
  obtain r1 w1 where reg: "nagRegisterLoop msg ts w = (r1, w1)"
    by (cases "nagRegisterLoop msg ts w")
  then have s1: "stopsAtFailure w r1 w1" by (rule stopsAtFailure_nagRegisterLoop)
  show ?case
  proof (cases r1)
    case Resolved
    with Cons.prems plan reg have "nagMessagesLoop rest s now w1 = Some (r, w')"
      by (simp add: scheduleRepeatingNag_def)
    then have "stopsAtFailure w1 r w'" by (rule Cons.IH)
    with s1 Resolved show ?thesis using stopsAtFailure_seq by blast
  next
    case (Rejected e)
    with Cons.prems plan reg have "r = Rejected e" "w' = w1"
      by (simp_all add: scheduleRepeatingNag_def)
    with s1 Rejected show ?thesis by simp
  qed
qed

lemma stopsAtFailure_nag_pass:
  assumes "scheduleNagNotifications now w = Some (r, w')"
  shows "stopsAtFailure w r w'"
proof -
  let ?w2 = "w\<lparr>calls := calls w @ [GetMessages, GetSettings]\<rparr>"
  have "stopsAtFailure w Resolved ?w2"
    by (rule stopsAtFailure_quiet [where evs = "[GetMessages, GetSettings]"]) simp_all
  then have s: "stopsAtFailure w Resolved (cancelAllNagNotifications ?w2)"
    using stopsAtFailure_cancelAllNag by (rule stopsAtFailure_seq)
  from assms have "nagMessagesLoop (filter (\<lambda>m. isNagMe m) (storedMessages w)) (storedSettings w)
      now (cancelAllNagNotifications ?w2) = Some (r, w')"
    by (simp add: scheduleNagNotifications_def Let_def)
  then have "stopsAtFailure (cancelAllNagNotifications ?w2) r w'"
    by (rule stopsAtFailure_nagMessagesLoop)
  with s show ?thesis by (rule stopsAtFailure_seq)
qed

lemma stopsAtFailure_Rejected:
  assumes "stopsAtFailure w (Rejected e) w'"
  shows "rejects w e \<and> last (calls w') = CreateTriggerNotification e
       \<and> filter (rejects w) (createdIds (drop (length (calls w)) (calls w'))) = [e]"
proof -
  from assms obtain pre where e: "rejects w e"
    and c: "calls w' = calls w @ pre @ [CreateTriggerNotification e]" and pre: "cleanCalls w pre"
    by (auto simp: stopsAtFailure_def)
  from pre have "filter (rejects w) (createdIds pre) = []"
    by (simp add: cleanCalls_def filter_empty_conv)
  with e c show ?thesis by (simp add: createdIds_append)
qed

lemma stopsAtFailure_Resolved:
  assumes "stopsAtFailure w Resolved w'"
  shows "filter (rejects w) (createdIds (drop (length (calls w)) (calls w'))) = []"
proof -
  from assms obtain new where "calls w' = calls w @ new" "cleanCalls w new"
    by (auto simp: stopsAtFailure_def)
  then show ?thesis by (simp add: cleanCalls_def filter_empty_conv)
qed

lemma nagRegisterLoop_refused_first:
  assumes "rejects w (''nag-'' @ msgId msg @ ''-'' @ showInt time)"
  shows "nagRegisterLoop msg (time # rest) w
           = (Rejected (''nag-'' @ msgId msg @ ''-'' @ showInt time),
              w\<lparr>calls := calls w @ [CreateTriggerNotification (''nag-'' @ msgId msg @ ''-'' @ showInt time)]\<rparr>)"
  using assms by (simp add: createTriggerNotification_def Let_def)

lemma refusingWorld_nag_pass:
  "scheduleNagNotifications (9 * msPerHour) refusingWorld
     = Some (Rejected ''nag-n-37800000'',
         (cancelAllNagNotifications (refusingWorld\<lparr>calls := [GetMessages, GetSettings]\<rparr>))
           \<lparr>calls := [GetMessages, GetSettings, GetTriggerNotifications,
                       CancelTriggerNotifications [''nag-n-2''],
                       CreateTriggerNotification ''nag-n-37800000'']\<rparr>)"
proof -
  let ?w3 = "cancelAllNagNotifications (refusingWorld\<lparr>calls := [GetMessages, GetSettings]\<rparr>)"
  have plan: "planNagTimes sampleNag defaultSettings (9 * msPerHour)
     = Some (37800000 # [43200000, 48600000, 54000000, 59400000, 64800000, 70200000,
             75600000, 115200000])"
    by code_simp
  have sh: "showInt 37800000 = ''37800000''"
    by (simp add: showInt_def showNat.simps digitChar_def)
  have i: "''nag-'' @ msgId sampleNag @ ''-'' @ showInt 37800000 = ''nag-n-37800000''"
    by (simp add: sh sampleNag_def sampleMessage_def)
  have st: "storedSettings refusingWorld = defaultSettings" "calls refusingWorld = []"
    "filter (\<lambda>m. isNagMe m) (storedMessages refusingWorld) = [sampleNag]"
    by (simp_all add: refusingWorld_def sampleWorld_def sampleNag_def sampleMessage_def)
  have rj: "rejects ?w3 ''nag-n-37800000''"
    by (simp add: others_cancelAllNag refusingWorld_def)
  have cl: "calls ?w3 = [GetMessages, GetSettings, GetTriggerNotifications,
                       CancelTriggerNotifications [''nag-n-2'']]"
    by (simp add: calls_cancelAllNag refusingWorld_def sampleWorld_def idStartsWith_def
        startsWith_def)
  have reg: "nagRegisterLoop sampleNag (37800000 # [43200000, 48600000, 54000000, 59400000,
        64800000, 70200000, 75600000, 115200000]) ?w3
      = (Rejected ''nag-n-37800000'',
         ?w3\<lparr>calls := calls ?w3 @ [CreateTriggerNotification ''nag-n-37800000'']\<rparr>)"
    using nagRegisterLoop_refused_first [of ?w3 sampleNag 37800000] rj
    unfolding i by blast
  have "scheduleNagNotifications (9 * msPerHour) refusingWorld
      = nagMessagesLoop [sampleNag] defaultSettings (9 * msPerHour) ?w3"
    by (simp add: scheduleNagNotifications_def Let_def st)
  also have "\<dots> = Some (Rejected ''nag-n-37800000'',
         ?w3\<lparr>calls := calls ?w3 @ [CreateTriggerNotification ''nag-n-37800000'']\<rparr>)"
  proof -
    have "scheduleRepeatingNag sampleNag defaultSettings (9 * msPerHour) ?w3
        = Some (Rejected ''nag-n-37800000'',
            ?w3\<lparr>calls := calls ?w3 @ [CreateTriggerNotification ''nag-n-37800000'']\<rparr>)"
      by (simp only: scheduleRepeatingNag_def plan reg option.case)
    then show ?thesis by simp
  qed
  finally show ?thesis by (simp add: cl)
qed

text \<open>
  A run of the nag pass with a sink that refuses the first registration: nine instants are
  planned, the pass is rejected at the first one and tries none of the other eight.
\<close>

theorem registration_failure_counterexample:
  "map_option length (planNagTimes sampleNag defaultSettings (9 * msPerHour)) = Some 9
   \<and> map_option fst (scheduleNagNotifications (9 * msPerHour) refusingWorld)
       = Some (Rejected ''nag-n-37800000'')
   \<and> map_option (createdIds \<circ> calls \<circ> snd) (scheduleNagNotifications (9 * msPerHour) refusingWorld)
       = Some [''nag-n-37800000'']"
proof -
  have "planNagTimes sampleNag defaultSettings (9 * msPerHour)
     = Some [37800000, 43200000, 48600000, 54000000, 59400000, 64800000, 70200000,
             75600000, 115200000]"
    by code_simp
  then show ?thesis
    by (simp add: refusingWorld_nag_pass)
qed

text \<open>
  Claim C9, as the code has it. A refused registration ends the pass: the pass is rejected
  with the error of that call, the refused call is the last call the pass makes and the only
  refused one, so no registration after it is attempted. A pass that resolves has had no
  refused registration.
\<close>

theorem registration_failure_stops_pass:
  "(\<forall>e. fst (scheduleWisdomNotifications now w) = Rejected e \<longrightarrow>
       rejects w e
     \<and> last (calls (snd (scheduleWisdomNotifications now w))) = CreateTriggerNotification e
     \<and> filter (rejects w)
         (createdIds (drop (length (calls w)) (calls (snd (scheduleWisdomNotifications now w)))))
         = [e])
   \<and> (fst (scheduleWisdomNotifications now w) = Resolved \<longrightarrow>
       filter (rejects w)
         (createdIds (drop (length (calls w)) (calls (snd (scheduleWisdomNotifications now w)))))
         = [])
   \<and> (\<forall>res. scheduleNagNotifications now w = Some res \<longrightarrow>
         (\<forall>e. fst res = Rejected e \<longrightarrow>
             rejects w e
           \<and> last (calls (snd res)) = CreateTriggerNotification e
           \<and> filter (rejects w) (createdIds (drop (length (calls w)) (calls (snd res)))) = [e])
       \<and> (fst res = Resolved \<longrightarrow>
             filter (rejects w) (createdIds (drop (length (calls w)) (calls (snd res)))) = []))"
proof (intro conjI allI impI)
  fix e assume "fst (scheduleWisdomNotifications now w) = Rejected e"
  then have "scheduleWisdomNotifications now w = (Rejected e, snd (scheduleWisdomNotifications now w))"
    by (metis prod.collapse)
  then have s: "stopsAtFailure w (Rejected e) (snd (scheduleWisdomNotifications now w))"
    by (rule stopsAtFailure_wisdom_pass)
  from stopsAtFailure_Rejected [OF s]
  show "rejects w e"
    and "last (calls (snd (scheduleWisdomNotifications now w))) = CreateTriggerNotification e"
    and "filter (rejects w)
         (createdIds (drop (length (calls w)) (calls (snd (scheduleWisdomNotifications now w)))))
         = [e]"
    by blast+
next
  assume "fst (scheduleWisdomNotifications now w) = Resolved"
  then have "scheduleWisdomNotifications now w = (Resolved, snd (scheduleWisdomNotifications now w))"
    by (metis prod.collapse)
  then have "stopsAtFailure w Resolved (snd (scheduleWisdomNotifications now w))"
    by (rule stopsAtFailure_wisdom_pass)
  then show "filter (rejects w)
         (createdIds (drop (length (calls w)) (calls (snd (scheduleWisdomNotifications now w)))))
         = []"
    by (rule stopsAtFailure_Resolved)
next
  fix res e
  assume "scheduleNagNotifications now w = Some res" "fst res = Rejected e"
  then have "scheduleNagNotifications now w = Some (Rejected e, snd res)"
    by (metis prod.collapse)
  then have s: "stopsAtFailure w (Rejected e) (snd res)"
    by (rule stopsAtFailure_nag_pass)
  from stopsAtFailure_Rejected [OF s]
  show "rejects w e" and "last (calls (snd res)) = CreateTriggerNotification e"
    and "filter (rejects w) (createdIds (drop (length (calls w)) (calls (snd res)))) = [e]"
    by blast+
next
  fix res
  assume "scheduleNagNotifications now w = Some res" "fst res = Resolved"
  then have "scheduleNagNotifications now w = Some (Resolved, snd res)"
    by (metis prod.collapse)
  then have "stopsAtFailure w Resolved (snd res)"
    by (rule stopsAtFailure_nag_pass)
  then show "filter (rejects w) (createdIds (drop (length (calls w)) (calls (snd res)))) = []"
    by (rule stopsAtFailure_Resolved)
qed

theorem registration_failure_stops_pass_witness:
  "fst (the (scheduleNagNotifications (9 * msPerHour) refusingWorld)) = Rejected ''nag-n-37800000''
   \<and> rejects refusingWorld ''nag-n-37800000''
   \<and> last (calls (snd (the (scheduleNagNotifications (9 * msPerHour) refusingWorld))))
       = CreateTriggerNotification ''nag-n-37800000''
   \<and> filter (rejects refusingWorld)
        (createdIds (drop (length (calls refusingWorld))
           (calls (snd (the (scheduleNagNotifications (9 * msPerHour) refusingWorld))))))
       = [''nag-n-37800000'']"
proof -
  obtain res where res: "scheduleNagNotifications (9 * msPerHour) refusingWorld = Some res"
    and f: "fst res = Rejected ''nag-n-37800000''"
    by (simp add: refusingWorld_nag_pass)
  from registration_failure_stops_pass [of "9 * msPerHour" refusingWorld] res f
  have "rejects refusingWorld ''nag-n-37800000''
      \<and> last (calls (snd res)) = CreateTriggerNotification ''nag-n-37800000''
      \<and> filter (rejects refusingWorld)
          (createdIds (drop (length (calls refusingWorld)) (calls (snd res)))) = [''nag-n-37800000'']"
    by blast
  with res f show ?thesis by simp
qed

end
